theory Spec2Isabelle
  imports Main "HOL-Library.Code_Target_Nat" "HOL-Library.Sublist"
begin

section \<open>JavaScript values and exceptions\<close>

text \<open>
  The exceptions \<open>Grid.js\<close> can raise: \<open>new Array(n)\<close> raises a RangeError when \<open>n\<close> is
  not an array length, reading a property of \<open>undefined\<close> raises a TypeError, and
  \<open>_buildNodes\<close> throws \<open>new Error('Matrix size does not fit')\<close>.
\<close>

datatype error = RangeError | TypeError | Error string

text \<open>Sequencing of a computation that may throw: the first exception ends it.\<close>

definition thenE :: "error + 'a \<Rightarrow> ('a \<Rightarrow> error + 'b) \<Rightarrow> error + 'b" where
  "thenE m f = (case m of Inl e \<Rightarrow> Inl e | Inr v \<Rightarrow> f v)"

text \<open>The operator \<open>a && b\<close> on booleans: \<open>b\<close> is evaluated only when \<open>a\<close> is true.\<close>

definition andE :: "error + bool \<Rightarrow> error + bool \<Rightarrow> error + bool" where
  "andE a b = thenE a (\<lambda>v. if v then b else Inr False)"

text \<open>
  A counted loop \<open>for (i = 0; i < n; ++i) body\<close> is \<open>foldE body [0..<n]\<close> on the state the
  body changes; an exception in the body ends the loop.
\<close>

fun foldE :: "('a \<Rightarrow> 's \<Rightarrow> error + 's) \<Rightarrow> 'a list \<Rightarrow> 's \<Rightarrow> error + 's" where
  "foldE f [] s = Inr s"
| "foldE f (x # xs) s = thenE (f x s) (foldE f xs)"

text \<open>
  The values a cell of the obstacle matrix can hold, and JavaScript's truthiness, which
  \<open>if (matrix[i][j])\<close> tests: \<open>undefined\<close>, \<open>null\<close>, \<open>false\<close>, \<open>0\<close> and the empty string are
  falsy, everything else is truthy. Numbers are integers here, as the coordinates and the
  sizes are.
\<close>

datatype jsval = Undefined | Null | Boolean bool | Number int | Str string

fun truthy :: "jsval \<Rightarrow> bool" where
  "truthy Undefined = False"
| "truthy Null = False"
| "truthy (Boolean b) = b"
| "truthy (Number n) = (n \<noteq> 0)"
| "truthy (Str s) = (s \<noteq> [])"

text \<open>
  Reading \<open>xs[i]\<close>: \<open>None\<close> stands for \<open>undefined\<close>, which JavaScript gives for every index
  that is not one of the array.
\<close>

definition index :: "'a list \<Rightarrow> int \<Rightarrow> 'a option" where
  "index xs i = (if 0 \<le> i \<and> i < int (length xs) then Some (xs ! nat i) else None)"

text \<open>
  \<open>new Array(n)\<close> raises a RangeError unless \<open>n\<close> is an integer of \<open>0 .. 2^32 - 1\<close>. The
  arrays of \<open>Grid.js\<close> are filled at the indices \<open>0, 1, ...\<close> in this order, so the model
  builds them by appending and keeps of \<open>new Array\<close> its exception only.
\<close>

definition new_Array :: "int \<Rightarrow> error + unit" where
  "new_Array n = (if 0 \<le> n \<and> n < 2 ^ 32 then Inr () else Inl RangeError)"

text \<open>
  \<open>n++\<close> on a number that holds a non-negative integer \<open>n\<close>: the new value is the double
  nearest to \<open>n + 1\<close>. Below \<open>2^53\<close> every integer is a double and the sum is exact. From
  \<open>2^53\<close> to \<open>2^54\<close> the doubles are the even integers, \<open>n + 1\<close> lies half way between
  \<open>n\<close> and \<open>n + 2\<close>, and the one with the even significand is taken: \<open>2^53 + 1\<close> is
  \<open>2^53\<close>. From \<open>2^54\<close> on the nearest double is \<open>n\<close> itself.
\<close>

definition js_increment :: "nat \<Rightarrow> nat" where
  "js_increment n =
     (if n < 2 ^ 53 then n + 1
      else if n < 2 ^ 54 \<and> odd (n div 2) then n + 2
      else n)"


section \<open>Node\<close>

text \<open>
  Modelled from the spec: \<open>Node\<close>, which \<open>Grid.js\<close> requires from \<open>./Node\<close> and which is not
  among the sources. The spec gives its contract: a node has the coordinates it was created
  with, a \<open>walkable\<close> attribute that is a boolean or a directional tag string and is
  \<open>true\<close> when the constructor is given none, and per-search state that is read through a
  versioned snapshot: a read at generation \<open>G\<close> never sees what was written under another
  generation only. The model keeps the per-search state with the generation it was written
  under (\<open>stamp\<close>), and a snapshot at another generation presents the default state.
\<close>

datatype walkability = Flag bool | Tag string

record 's Node =
  node_x :: int
  node_y :: int
  walkable :: walkability
  stamp :: nat
  search :: "'s option"

text \<open>Modelled from the spec: \<open>new Node(x, y, walkable)\<close>, the third argument optional.\<close>

definition new_Node :: "int \<Rightarrow> int \<Rightarrow> walkability option \<Rightarrow> 's Node" where
  "new_Node x y w =
     \<lparr>node_x = x, node_y = y,
      walkable = (case w of None \<Rightarrow> Flag True | Some v \<Rightarrow> v),
      stamp = 0, search = None\<rparr>"

text \<open>Modelled from the spec: \<open>node.get(iteration)\<close>, the versioned snapshot of a node.\<close>

definition Node_get :: "'s Node \<Rightarrow> nat \<Rightarrow> 's Node" where
  "Node_get n it = (if stamp n = it then n else n\<lparr>stamp := it, search := None\<rparr>)"


section \<open>The heap\<close>

text \<open>
  Grids and nodes are objects: \<open>setWalkableAt\<close> and \<open>increment\<close> change one in place, and
  \<open>clone\<close> is about which objects two grids share. The heap holds the objects, an address
  is an index into it, and allocation appends. A \<open>Grid\<close> is the object of \<open>Grid.js\<close>:
  \<open>nodes\<close> is the array of rows, each an array of references to nodes. The arrays
  themselves are written only while they are built, so they are values here. The
  coordinates and the sizes are integers; \<open>iteration\<close> is a number that starts at 0 and
  changes by \<open>++\<close> only, so it holds a non-negative integer, and \<open>js_increment\<close> is what
  \<open>++\<close> does to it.
\<close>

type_synonym addr = nat

record Grid =
  width :: int
  height :: int
  nodes :: "addr list list"
  iteration :: nat

record 's heap =
  grids :: "Grid list"
  objs :: "'s Node list"

definition empty_heap :: "'s heap" where
  "empty_heap = \<lparr>grids = [], objs = []\<rparr>"

text \<open>
  A reference of the program always points to an object; the invariant \<open>grid_ok\<close> below
  says so for the addresses of a grid, and the reads here are used under it.
\<close>

definition the_grid :: "'s heap \<Rightarrow> addr \<Rightarrow> Grid" where
  "the_grid st this = grids st ! this"

definition the_node :: "'s heap \<Rightarrow> addr \<Rightarrow> 's Node" where
  "the_node st a = objs st ! a"

definition alloc_Node :: "'s Node \<Rightarrow> 's heap \<Rightarrow> addr \<times> 's heap" where
  "alloc_Node n st = (length (objs st), st\<lparr>objs := objs st @ [n]\<rparr>)"

definition alloc_Grid :: "Grid \<Rightarrow> 's heap \<Rightarrow> addr \<times> 's heap" where
  "alloc_Grid g st = (length (grids st), st\<lparr>grids := grids st @ [g]\<rparr>)"

text \<open>The assignment \<open>node.walkable = v\<close> to the node at an address.\<close>

definition set_walkable :: "addr \<Rightarrow> walkability \<Rightarrow> 's heap \<Rightarrow> 's heap" where
  "set_walkable a v st = st\<lparr>objs := (objs st)[a := (objs st ! a)\<lparr>walkable := v\<rparr>]\<rparr>"

text \<open>
  \<open>nodes[y][x]\<close> followed by a property access (\<open>.get(...)\<close>, \<open>.walkable\<close>): when row
  \<open>y\<close> is \<open>undefined\<close> the index \<open>[x]\<close> raises a TypeError, when the element is
  \<open>undefined\<close> the property access does.
\<close>

definition node_ref :: "addr list list \<Rightarrow> int \<Rightarrow> int \<Rightarrow> error + addr" where
  "node_ref ns y x =
     (case index ns y of
        None \<Rightarrow> Inl TypeError
      | Some row \<Rightarrow> (case index row x of None \<Rightarrow> Inl TypeError | Some a \<Rightarrow> Inr a))"


section \<open>Grid.js\<close>

subsection \<open>Construction\<close>

text \<open>
  The loop nest that \<open>_buildNodes\<close> and \<open>clone\<close> both run:
  \<^verbatim>\<open>for (i = 0; i < height; ++i) { arr[i] = new Array(width);
     for (j = 0; j < width; ++j) { arr[i][j] = cell(j, i); } }\<close>
  after \<open>arr = new Array(height)\<close>, where \<open>cell(j, i)\<close> is a \<open>new Node(...)\<close> whose
  arguments may read the heap and may raise. The state of the loops is the array built so
  far and the heap.
\<close>

definition fill_row ::
  "(nat \<Rightarrow> nat \<Rightarrow> 's heap \<Rightarrow> error + 's Node) \<Rightarrow> int \<Rightarrow> nat \<Rightarrow> 's heap \<Rightarrow> error + (addr list \<times> 's heap)" where
  "fill_row cell w i st =
     thenE (new_Array w) (\<lambda>_.
       foldE (\<lambda>j (row, st).
                thenE (cell j i st) (\<lambda>n.
                  let (a, st') = alloc_Node n st in Inr (row @ [a], st')))
             [0..<nat w] ([], st))"

definition fill_rows ::
  "(nat \<Rightarrow> nat \<Rightarrow> 's heap \<Rightarrow> error + 's Node) \<Rightarrow> int \<Rightarrow> int \<Rightarrow> 's heap \<Rightarrow> error + (addr list list \<times> 's heap)" where
  "fill_rows cell w h st =
     thenE (new_Array h) (\<lambda>_.
       foldE (\<lambda>i (ns, st). thenE (fill_row cell w i st) (\<lambda>(row, st'). Inr (ns @ [row], st')))
             [0..<nat h] ([], st))"

text \<open>The cell of the first loop nest of \<open>_buildNodes\<close>: \<open>new Node(j, i)\<close>.\<close>

definition fresh_cell :: "nat \<Rightarrow> nat \<Rightarrow> 's heap \<Rightarrow> error + 's Node" where
  "fresh_cell j i st = Inr (new_Node (int j) (int i) None)"

text \<open>
  The test \<open>matrix.length !== height || matrix[0].length !== width\<close>: the second operand
  is evaluated only when the first is false, and raises a TypeError when \<open>matrix[0]\<close> is
  \<open>undefined\<close>.
\<close>

definition size_differs :: "jsval list list \<Rightarrow> int \<Rightarrow> int \<Rightarrow> error + bool" where
  "size_differs m w h =
     (if int (length m) \<noteq> h then Inr True
      else (case index m 0 of
              None \<Rightarrow> Inl TypeError
            | Some row \<Rightarrow> Inr (int (length row) \<noteq> w)))"

text \<open>\<open>matrix[i][j]\<close>: \<open>undefined\<close> when row \<open>i\<close> has no index \<open>j\<close>.\<close>

definition matrix_at :: "jsval list list \<Rightarrow> int \<Rightarrow> int \<Rightarrow> error + jsval" where
  "matrix_at m i j =
     (case index m i of
        None \<Rightarrow> Inl TypeError
      | Some row \<Rightarrow> Inr (case index row j of None \<Rightarrow> Undefined | Some v \<Rightarrow> v))"

text \<open>The body of the second loop nest: \<open>if (matrix[i][j]) nodes[i][j].walkable = false\<close>.\<close>

definition mark_cell :: "jsval list list \<Rightarrow> addr list list \<Rightarrow> nat \<Rightarrow> nat \<Rightarrow> 's heap \<Rightarrow> error + 's heap" where
  "mark_cell m ns i j st =
     thenE (matrix_at m (int i) (int j)) (\<lambda>v.
       if truthy v
       then thenE (node_ref ns (int i) (int j)) (\<lambda>a. Inr (set_walkable a (Flag False) st))
       else Inr st)"

definition mark_cells :: "jsval list list \<Rightarrow> addr list list \<Rightarrow> int \<Rightarrow> int \<Rightarrow> 's heap \<Rightarrow> error + 's heap" where
  "mark_cells m ns w h st =
     foldE (\<lambda>i. foldE (\<lambda>j. mark_cell m ns i j) [0..<nat w]) [0..<nat h] st"

text \<open>
  \<open>_buildNodes(width, height, matrix)\<close>; \<open>matrix\<close> is \<open>None\<close> when it is \<open>undefined\<close>. The
  nodes are allocated first, then the size of the matrix is tested, then the matrix is read.
\<close>

definition buildNodes :: "int \<Rightarrow> int \<Rightarrow> jsval list list option \<Rightarrow> 's heap \<Rightarrow> error + (addr list list \<times> 's heap)" where
  "buildNodes w h matrix st =
     thenE (fill_rows fresh_cell w h st) (\<lambda>(ns, st1).
       case matrix of
         None \<Rightarrow> Inr (ns, st1)
       | Some m \<Rightarrow>
           thenE (size_differs m w h) (\<lambda>differs.
             if differs then Inl (Error ''Matrix size does not fit'')
             else thenE (mark_cells m ns w h st1) (\<lambda>st2. Inr (ns, st2))))"

text \<open>
  The constructor \<open>new Grid(width, height, matrix)\<close>: the new object is returned, at its
  address, when \<open>_buildNodes\<close> has returned; an exception leaves no grid.
\<close>

definition new_Grid :: "int \<Rightarrow> int \<Rightarrow> jsval list list option \<Rightarrow> 's heap \<Rightarrow> error + (addr \<times> 's heap)" where
  "new_Grid w h matrix st =
     thenE (buildNodes w h matrix st) (\<lambda>(ns, st1).
       Inr (alloc_Grid \<lparr>width = w, height = h, nodes = ns, iteration = 0\<rparr> st1))"

subsection \<open>Queries\<close>

definition isInside :: "'s heap \<Rightarrow> addr \<Rightarrow> int \<Rightarrow> int \<Rightarrow> bool" where
  "isInside st this x y =
     ((x \<ge> 0 \<and> x < width (the_grid st this)) \<and> (y \<ge> 0 \<and> y < height (the_grid st this)))"

definition getNodeAt :: "'s heap \<Rightarrow> addr \<Rightarrow> int \<Rightarrow> int \<Rightarrow> error + 's Node" where
  "getNodeAt st this x y =
     thenE (node_ref (nodes (the_grid st this)) y x) (\<lambda>a.
       Inr (Node_get (the_node st a) (iteration (the_grid st this))))"

text \<open>
  \<open>border\<close> is \<open>None\<close> when the argument is not supplied. \<open>walkable != border\<close> on a string
  and \<open>undefined\<close> is true, on two strings it compares them.
\<close>

definition isWalkableAt :: "'s heap \<Rightarrow> addr \<Rightarrow> int \<Rightarrow> int \<Rightarrow> string option \<Rightarrow> error + bool" where
  "isWalkableAt st this x y border =
     (if \<not> isInside st this x y then Inr False
      else thenE (node_ref (nodes (the_grid st this)) y x) (\<lambda>a.
        case walkable (Node_get (the_node st a) (iteration (the_grid st this))) of
          Tag t \<Rightarrow> Inr (Some t \<noteq> border)
        | Flag b \<Rightarrow> Inr b))"

subsection \<open>Updates\<close>

definition setWalkableAt :: "'s heap \<Rightarrow> addr \<Rightarrow> int \<Rightarrow> int \<Rightarrow> walkability \<Rightarrow> error + 's heap" where
  "setWalkableAt st this x y v =
     thenE (node_ref (nodes (the_grid st this)) y x) (\<lambda>a. Inr (set_walkable a v st))"

text \<open>\<open>this.iteration++\<close>.\<close>

definition increment :: "'s heap \<Rightarrow> addr \<Rightarrow> 's heap" where
  "increment st this =
     st\<lparr>grids := (grids st)[this :=
           (the_grid st this)\<lparr>iteration := js_increment (iteration (the_grid st this))\<rparr>]\<rparr>"

text \<open>\<open>increment\<close> called \<open>n\<close> times.\<close>

fun increments :: "nat \<Rightarrow> 's heap \<Rightarrow> addr \<Rightarrow> 's heap" where
  "increments 0 st this = st"
| "increments (Suc n) st this = increment (increments n st this) this"

subsection \<open>Neighbors\<close>

text \<open>
  One block of \<open>getNeighbors\<close>:
  \<^verbatim>\<open>if (cond) { neighbors.push(nodes[yy][xx].get(this.iteration)); s = true; }\<close>
  with \<open>s\<close> false before it. It returns the array and \<open>s\<close>.
\<close>

definition visit ::
  "'s heap \<Rightarrow> addr \<Rightarrow> error + bool \<Rightarrow> int \<Rightarrow> int \<Rightarrow> 's Node list \<Rightarrow> error + ('s Node list \<times> bool)" where
  "visit st this cond yy xx neighbors =
     thenE cond (\<lambda>c.
       if c
       then thenE (node_ref (nodes (the_grid st this)) yy xx) (\<lambda>a.
              Inr (neighbors @ [Node_get (the_node st a) (iteration (the_grid st this))], True))
       else Inr (neighbors, False))"

text \<open>The flags \<open>d0 .. d3\<close> of the diagonals, from the flags \<open>s0 .. s3\<close>.\<close>

definition diagonal_flags :: "bool \<Rightarrow> bool \<Rightarrow> bool \<Rightarrow> bool \<Rightarrow> bool \<Rightarrow> bool \<times> bool \<times> bool \<times> bool" where
  "diagonal_flags dontCrossCorners s0 s1 s2 s3 =
     (if dontCrossCorners
      then (s3 \<and> s0, s0 \<and> s1, s1 \<and> s2, s2 \<and> s3)
      else (s3 \<or> s0, s0 \<or> s1, s1 \<or> s2, s2 \<or> s3))"

definition getNeighbors :: "'s heap \<Rightarrow> addr \<Rightarrow> 's Node \<Rightarrow> bool \<Rightarrow> bool \<Rightarrow> error + 's Node list" where
  "getNeighbors st this node allowDiagonal dontCrossCorners =
     (let x = node_x node; y = node_y node; W = isWalkableAt st this in
      thenE (visit st this
               (andE (W x (y - 1) (Some ''bottom'')) (W x y (Some ''top'')))
               (y - 1) x []) (\<lambda>(n0, s0).
      thenE (visit st this
               (andE (W (x + 1) y (Some ''left'')) (W x y (Some ''right'')))
               y (x + 1) n0) (\<lambda>(n1, s1).
      thenE (visit st this
               (andE (W x (y + 1) (Some ''top'')) (W x y (Some ''bottom'')))
               (y + 1) x n1) (\<lambda>(n2, s2).
      thenE (visit st this
               (andE (W (x - 1) y (Some ''right'')) (W x y (Some ''left'')))
               y (x - 1) n2) (\<lambda>(n3, s3).
      if \<not> allowDiagonal then Inr n3
      else
        let (d0, d1, d2, d3) = diagonal_flags dontCrossCorners s0 s1 s2 s3 in
        thenE (visit st this
                 (andE (Inr d0) (andE (W (x - 1) (y - 1) (Some ''bottom''))
                   (andE (W (x - 1) y (Some ''top''))
                     (andE (W (x - 1) (y - 1) (Some ''right'')) (W x (y - 1) (Some ''left''))))))
                 (y - 1) (x - 1) n3) (\<lambda>(n4, _).
        thenE (visit st this
                 (andE (Inr d1) (andE (W (x + 1) (y - 1) (Some ''bottom''))
                   (andE (W (x + 1) y (Some ''top''))
                     (andE (W (x + 1) (y - 1) (Some ''left'')) (W x (y - 1) (Some ''right''))))))
                 (y - 1) (x + 1) n4) (\<lambda>(n5, _).
        thenE (visit st this
                 (andE (Inr d2) (andE (W (x + 1) (y + 1) (Some ''top''))
                   (andE (W (x + 1) y (Some ''bottom''))
                     (andE (W (x + 1) (y + 1) (Some ''left'')) (W x (y + 1) (Some ''right''))))))
                 (y + 1) (x + 1) n5) (\<lambda>(n6, _).
        thenE (visit st this
                 (andE (Inr d3) (andE (W (x - 1) (y + 1) (Some ''top''))
                   (andE (W (x - 1) y (Some ''bottom''))
                     (andE (W (x - 1) (y + 1) (Some ''right'')) (W x (y + 1) (Some ''left''))))))
                 (y + 1) (x - 1) n6) (\<lambda>(n7, _).
        Inr n7)))))))))"

subsection \<open>Clone\<close>

text \<open>The cell of the loop nest of \<open>clone\<close>: \<open>new Node(j, i, thisNodes[i][j].walkable)\<close>.\<close>

definition copied_cell :: "addr list list \<Rightarrow> nat \<Rightarrow> nat \<Rightarrow> 's heap \<Rightarrow> error + 's Node" where
  "copied_cell thisNodes j i st =
     thenE (node_ref thisNodes (int i) (int j)) (\<lambda>a.
       Inr (new_Node (int j) (int i) (Some (walkable (the_node st a)))))"

definition clone :: "'s heap \<Rightarrow> addr \<Rightarrow> error + (addr \<times> 's heap)" where
  "clone st this =
     (let w = width (the_grid st this); h = height (the_grid st this);
          thisNodes = nodes (the_grid st this) in
      thenE (new_Grid w h None st) (\<lambda>(newGrid, st1).
      thenE (fill_rows (copied_cell thisNodes) w h st1) (\<lambda>(newNodes, st2).
      Inr (newGrid,
           st2\<lparr>grids := (grids st2)[newGrid := (the_grid st2 newGrid)\<lparr>nodes := newNodes\<rparr>]\<rparr>))))"

subsection \<open>Method calls\<close>

text \<open>
  A call \<open>grid.m(...)\<close> of a method of \<open>Grid.js\<close> on the grid at the address \<open>this\<close>: the
  value it returns and the heap after it. \<open>isInside\<close>, \<open>isWalkableAt\<close>, \<open>getNodeAt\<close> and
  \<open>getNeighbors\<close> assign to no field of any object, and the only method they call outside
  \<open>Grid.js\<close> is \<open>Node.get\<close>, a read in the spec's contract: the heap after them is the heap
  before. \<open>setWalkableAt\<close>, \<open>clone\<close> and \<open>increment\<close> return the heap they have changed.
\<close>

datatype 's operation =
    IsInside int int
  | IsWalkableAt int int "string option"
  | GetNodeAt int int
  | SetWalkableAt int int walkability
  | GetNeighbors "'s Node" bool bool
  | Clone
  | Increment

datatype 's returned = A_bool bool | A_node "'s Node" | A_nodes "'s Node list" | A_grid addr | Nothing

fun call :: "'s operation \<Rightarrow> addr \<Rightarrow> 's heap \<Rightarrow> error + ('s returned \<times> 's heap)" where
  "call (IsInside x y) this st = Inr (A_bool (isInside st this x y), st)"
| "call (IsWalkableAt x y border) this st =
     thenE (isWalkableAt st this x y border) (\<lambda>b. Inr (A_bool b, st))"
| "call (GetNodeAt x y) this st = thenE (getNodeAt st this x y) (\<lambda>n. Inr (A_node n, st))"
| "call (SetWalkableAt x y v) this st =
     thenE (setWalkableAt st this x y v) (\<lambda>st'. Inr (Nothing, st'))"
| "call (GetNeighbors node allowDiagonal dontCrossCorners) this st =
     thenE (getNeighbors st this node allowDiagonal dontCrossCorners) (\<lambda>ns. Inr (A_nodes ns, st))"
| "call Clone this st = thenE (clone st this) (\<lambda>(g, st'). Inr (A_grid g, st'))"
| "call Increment this st = Inr (Nothing, increment st this)"


section \<open>Well-formed grids\<close>

text \<open>
  What the constructor establishes and every operation keeps: the grid is an object of
  the heap, \<open>height\<close> and (when there is a row) \<open>width\<close> are array lengths, \<open>nodes\<close> has
  \<open>height\<close> rows of \<open>width\<close> references each, and the reference at row \<open>i\<close>, column
  \<open>j\<close> points to a node of the heap with the coordinates \<open>(j, i)\<close>.
\<close>

definition grid_ok :: "'s heap \<Rightarrow> addr \<Rightarrow> bool" where
  "grid_ok st this \<longleftrightarrow>
     this < length (grids st) \<and>
     new_Array (height (the_grid st this)) = Inr () \<and>
     (0 < height (the_grid st this) \<longrightarrow> new_Array (width (the_grid st this)) = Inr ()) \<and>
     length (nodes (the_grid st this)) = nat (height (the_grid st this)) \<and>
     (\<forall>i < length (nodes (the_grid st this)).
        length (nodes (the_grid st this) ! i) = nat (width (the_grid st this)) \<and>
        (\<forall>j < nat (width (the_grid st this)).
           nodes (the_grid st this) ! i ! j < length (objs st) \<and>
           node_x (the_node st (nodes (the_grid st this) ! i ! j)) = int j \<and>
           node_y (the_node st (nodes (the_grid st this) ! i ! j)) = int i))"

text \<open>The coordinates of a node, as a pair.\<close>

definition pos :: "'s Node \<Rightarrow> int \<times> int" where
  "pos n = (node_x n, node_y n)"


section \<open>Vocabulary of the proofs\<close>

text \<open>
  On a well-formed grid the operations raise nothing, and what they return is described
  by the functions of this section, which read the heap without a check. The lemmas below
  connect them to the operations; the claims are stated on the operations.
\<close>

text \<open>The address at row \<open>y\<close>, column \<open>x\<close>, and the snapshot of the node there.\<close>

definition cell_addr :: "'s heap \<Rightarrow> addr \<Rightarrow> int \<Rightarrow> int \<Rightarrow> addr" where
  "cell_addr st this x y = nodes (the_grid st this) ! nat y ! nat x"

definition snapshot :: "'s heap \<Rightarrow> addr \<Rightarrow> int \<Rightarrow> int \<Rightarrow> 's Node" where
  "snapshot st this x y = Node_get (the_node st (cell_addr st this x y)) (iteration (the_grid st this))"

text \<open>What \<open>isWalkableAt\<close> returns on a well-formed grid.\<close>

definition open_at :: "'s heap \<Rightarrow> addr \<Rightarrow> int \<Rightarrow> int \<Rightarrow> string option \<Rightarrow> bool" where
  "open_at st this x y border \<longleftrightarrow>
     isInside st this x y \<and>
     (case walkable (the_node st (cell_addr st this x y)) of
        Tag t \<Rightarrow> Some t \<noteq> border
      | Flag b \<Rightarrow> b)"

text \<open>A list of one element or none.\<close>

definition pick :: "bool \<Rightarrow> 'a \<Rightarrow> 'a list" where
  "pick c v = (if c then [v] else [])"

text \<open>
  The coordinates of the nodes \<open>getNeighbors\<close> returns from \<open>(x, y)\<close> on a well-formed
  grid, in the order of its eight blocks.
\<close>

definition neighbor_coords :: "'s heap \<Rightarrow> addr \<Rightarrow> int \<Rightarrow> int \<Rightarrow> bool \<Rightarrow> bool \<Rightarrow> (int \<times> int) list" where
  "neighbor_coords st this x y allowDiagonal dontCrossCorners =
     (let W = open_at st this;
          s0 = (W x (y - 1) (Some ''bottom'') \<and> W x y (Some ''top''));
          s1 = (W (x + 1) y (Some ''left'') \<and> W x y (Some ''right''));
          s2 = (W x (y + 1) (Some ''top'') \<and> W x y (Some ''bottom''));
          s3 = (W (x - 1) y (Some ''right'') \<and> W x y (Some ''left''))
      in pick s0 (x, y - 1) @ pick s1 (x + 1, y) @ pick s2 (x, y + 1) @ pick s3 (x - 1, y) @
         (if allowDiagonal
          then (case diagonal_flags dontCrossCorners s0 s1 s2 s3 of (d0, d1, d2, d3) \<Rightarrow>
            pick (d0 \<and> W (x - 1) (y - 1) (Some ''bottom'') \<and> W (x - 1) y (Some ''top'') \<and>
                  W (x - 1) (y - 1) (Some ''right'') \<and> W x (y - 1) (Some ''left'')) (x - 1, y - 1) @
            pick (d1 \<and> W (x + 1) (y - 1) (Some ''bottom'') \<and> W (x + 1) y (Some ''top'') \<and>
                  W (x + 1) (y - 1) (Some ''left'') \<and> W x (y - 1) (Some ''right'')) (x + 1, y - 1) @
            pick (d2 \<and> W (x + 1) (y + 1) (Some ''top'') \<and> W (x + 1) y (Some ''bottom'') \<and>
                  W (x + 1) (y + 1) (Some ''left'') \<and> W x (y + 1) (Some ''right'')) (x + 1, y + 1) @
            pick (d3 \<and> W (x - 1) (y + 1) (Some ''top'') \<and> W (x - 1) y (Some ''bottom'') \<and>
                  W (x - 1) (y + 1) (Some ''right'') \<and> W x (y + 1) (Some ''left'')) (x - 1, y + 1))
          else []))"

text \<open>The diagonal part of \<open>neighbor_coords\<close>, with the flags \<open>d0 .. d3\<close> written out.\<close>

definition diagonal_coords :: "'s heap \<Rightarrow> addr \<Rightarrow> int \<Rightarrow> int \<Rightarrow> bool \<Rightarrow> (int \<times> int) list" where
  "diagonal_coords st this x y dcc =
     (let W = open_at st this;
          s0 = (W x (y - 1) (Some ''bottom'') \<and> W x y (Some ''top''));
          s1 = (W (x + 1) y (Some ''left'') \<and> W x y (Some ''right''));
          s2 = (W x (y + 1) (Some ''top'') \<and> W x y (Some ''bottom''));
          s3 = (W (x - 1) y (Some ''right'') \<and> W x y (Some ''left''))
      in pick ((if dcc then s3 \<and> s0 else s3 \<or> s0) \<and>
               W (x - 1) (y - 1) (Some ''bottom'') \<and> W (x - 1) y (Some ''top'') \<and>
               W (x - 1) (y - 1) (Some ''right'') \<and> W x (y - 1) (Some ''left'')) (x - 1, y - 1) @
         pick ((if dcc then s0 \<and> s1 else s0 \<or> s1) \<and>
               W (x + 1) (y - 1) (Some ''bottom'') \<and> W (x + 1) y (Some ''top'') \<and>
               W (x + 1) (y - 1) (Some ''left'') \<and> W x (y - 1) (Some ''right'')) (x + 1, y - 1) @
         pick ((if dcc then s1 \<and> s2 else s1 \<or> s2) \<and>
               W (x + 1) (y + 1) (Some ''top'') \<and> W (x + 1) y (Some ''bottom'') \<and>
               W (x + 1) (y + 1) (Some ''left'') \<and> W x (y + 1) (Some ''right'')) (x + 1, y + 1) @
         pick ((if dcc then s2 \<and> s3 else s2 \<or> s3) \<and>
               W (x - 1) (y + 1) (Some ''top'') \<and> W (x - 1) y (Some ''bottom'') \<and>
               W (x - 1) (y + 1) (Some ''right'') \<and> W x (y + 1) (Some ''left'')) (x - 1, y + 1))"

text \<open>
  \<open>extends st st'\<close>: every node of \<open>st\<close> is in \<open>st'\<close>, at its address and unchanged. It
  holds from a heap to the heap after allocations.
\<close>

definition extends :: "'s heap \<Rightarrow> 's heap \<Rightarrow> bool" where
  "extends st st' \<longleftrightarrow>
     length (objs st) \<le> length (objs st') \<and> (\<forall>a < length (objs st). the_node st' a = the_node st a)"

text \<open>
  \<open>rows_filled st st' w c is rows\<close>: what the loop nest has built when it has run for the
  rows \<open>is\<close> from the heap \<open>st\<close> to the heap \<open>st'\<close>. Each row has \<open>w\<close> references, to
  nodes allocated since \<open>st\<close>, and the node of row \<open>is ! k\<close>, column \<open>j\<close> is
  \<open>c j (is ! k)\<close>.
\<close>

definition rows_filled ::
  "'s heap \<Rightarrow> 's heap \<Rightarrow> int \<Rightarrow> (nat \<Rightarrow> nat \<Rightarrow> 's Node) \<Rightarrow> nat list \<Rightarrow> addr list list \<Rightarrow> bool" where
  "rows_filled st st' w c is rows \<longleftrightarrow>
     length rows = length is \<and>
     (\<forall>k < length is. length (rows ! k) = nat w \<and>
        (\<forall>j < nat w. length (objs st) \<le> rows ! k ! j \<and> rows ! k ! j < length (objs st') \<and>
                      the_node st' (rows ! k ! j) = c j (is ! k)))"

text \<open>The value \<open>matrix[i][j]\<close> when row \<open>i\<close> exists.\<close>

definition cell_value :: "jsval list list \<Rightarrow> nat \<Rightarrow> nat \<Rightarrow> jsval" where
  "cell_value m i j = (case matrix_at m (int i) (int j) of Inl _ \<Rightarrow> Undefined | Inr v \<Rightarrow> v)"

text \<open>
  \<open>marked st st' A\<close>: the heap \<open>st'\<close> is \<open>st\<close> with \<open>walkable = false\<close> written to the
  nodes at the addresses \<open>A\<close>; \<open>blocked m ns I J\<close> are the addresses of the cells of the
  rows \<open>I\<close> and columns \<open>J\<close> where the matrix is truthy.
\<close>

definition marked :: "'s heap \<Rightarrow> 's heap \<Rightarrow> addr set \<Rightarrow> bool" where
  "marked st st' A \<longleftrightarrow>
     grids st' = grids st \<and> length (objs st') = length (objs st) \<and>
     (\<forall>a < length (objs st).
        the_node st' a = (if a \<in> A then (the_node st a)\<lparr>walkable := Flag False\<rparr> else the_node st a))"

definition blocked :: "jsval list list \<Rightarrow> addr list list \<Rightarrow> nat set \<Rightarrow> nat set \<Rightarrow> addr set" where
  "blocked m ns I J = {ns ! i ! j | i j. i \<in> I \<and> j \<in> J \<and> truthy (cell_value m i j)}"

text \<open>The node the constructor leaves at row \<open>i\<close>, column \<open>j\<close>.\<close>

definition cell_open :: "jsval list list option \<Rightarrow> nat \<Rightarrow> nat \<Rightarrow> bool" where
  "cell_open matrix i j = (case matrix of None \<Rightarrow> True | Some m \<Rightarrow> \<not> truthy (cell_value m i j))"

definition built_cell :: "jsval list list option \<Rightarrow> nat \<Rightarrow> nat \<Rightarrow> 's Node" where
  "built_cell matrix j i = (new_Node (int j) (int i) None)\<lparr>walkable := Flag (cell_open matrix i j)\<rparr>"


text \<open>The node \<open>clone\<close> allocates for row \<open>i\<close>, column \<open>j\<close>.\<close>

definition cloned_cell :: "'s heap \<Rightarrow> addr \<Rightarrow> nat \<Rightarrow> nat \<Rightarrow> 's Node" where
  "cloned_cell st this j i =
     new_Node (int j) (int i) (Some (walkable (the_node st (nodes (the_grid st this) ! i ! j))))"


section \<open>Vocabulary of the claims\<close>

text \<open>\<open>isWalkableAt(x, y, side)\<close> returns true.\<close>

definition walks :: "'s heap \<Rightarrow> addr \<Rightarrow> int \<Rightarrow> int \<Rightarrow> string \<Rightarrow> bool" where
  "walks st this x y side \<longleftrightarrow> isWalkableAt st this x y (Some side) = Inr True"

text \<open>
  The grids of the examples: the grid of width 4 and height 4 without obstacles; the grid
  of width 2 and height 2 without obstacles, after \<open>setWalkableAt(0, 0, 'right')\<close>; and the
  grid of width 3 and height 3 whose matrix blocks the four cells next to the centre. Each
  is the only grid of its heap, at the address 0.
\<close>

definition grid4 :: "unit heap" where
  "grid4 = snd (projr (new_Grid 4 4 None empty_heap))"

definition grid2 :: "unit heap" where
  "grid2 = projr (setWalkableAt (snd (projr (new_Grid 2 2 None empty_heap))) 0 0 0 (Tag ''right''))"

definition grid3 :: "unit heap" where
  "grid3 = snd (projr (new_Grid 3 3
     (Some [[Number 0, Number 1, Number 0], [Number 1, Number 0, Number 1], [Number 0, Number 1, Number 0]])
     empty_heap))"


text \<open>
  The heap after \<open>increment\<close> and then \<open>clone\<close> of the grid of \<open>grid2\<close>, where the clone
  is at the address 1, and that heap after \<open>setWalkableAt(1, 1, false)\<close> on the clone.
\<close>

definition grid2_cloned :: "unit heap" where
  "grid2_cloned = snd (projr (clone (increment grid2 0) 0))"

definition grid2_clone_set :: "unit heap" where
  "grid2_clone_set = projr (setWalkableAt grid2_cloned 1 1 1 (Flag False))"

text \<open>
  The heap of \<open>grid2\<close> after \<open>setWalkableAt(1, 1, false)\<close>, where the four nodes differ in
  their coordinates and three of them in \<open>walkable\<close>; and the heap of \<open>grid2\<close> where
  \<open>iteration\<close> is \<open>2^53\<close>.
\<close>

definition grid2_blocked :: "unit heap" where
  "grid2_blocked = projr (setWalkableAt grid2 0 1 1 (Flag False))"

definition grid2_late :: "unit heap" where
  "grid2_late = grid2\<lparr>grids := (grids grid2)[0 := (the_grid grid2 0)\<lparr>iteration := 2 ^ 53\<rparr>]\<rparr>"

section \<open>Lemmas\<close>

subsection \<open>Exceptions\<close>

lemma thenE_Inr [simp]: "thenE (Inr v) f = f v"
  by (simp add: thenE_def)

lemma thenE_Inl [simp]: "thenE (Inl e) f = Inl e"
  by (simp add: thenE_def)

lemma thenE_eq_Inr: "thenE m f = Inr r \<longleftrightarrow> (\<exists>v. m = Inr v \<and> f v = Inr r)"
  by (cases m) simp_all

lemma andE_Inr [simp]: "andE (Inr a) (Inr b) = Inr (a \<and> b)"
  by (simp add: andE_def)

lemma new_Array_cases: "new_Array n = Inr () \<or> new_Array n = Inl RangeError"
  by (simp add: new_Array_def)

subsection \<open>Queries on a well-formed grid\<close>

lemma Node_get_simps [simp]:
  "walkable (Node_get n it) = walkable n"
  "node_x (Node_get n it) = node_x n"
  "node_y (Node_get n it) = node_y n"
  by (simp_all add: Node_get_def)

lemma Node_get_new_Node [simp]: "Node_get (new_Node x y w) 0 = new_Node x y w"
  by (simp add: Node_get_def new_Node_def)

lemma grid_ok_dims:
  assumes "grid_ok st this"
  shows "new_Array (height (the_grid st this)) = Inr ()"
    and "0 < height (the_grid st this) \<Longrightarrow> new_Array (width (the_grid st this)) = Inr ()"
    and "this < length (grids st)"
    and "length (nodes (the_grid st this)) = nat (height (the_grid st this))"
    and "i < nat (height (the_grid st this)) \<Longrightarrow>
         length (nodes (the_grid st this) ! i) = nat (width (the_grid st this))"
    and "i < nat (height (the_grid st this)) \<Longrightarrow> j < nat (width (the_grid st this)) \<Longrightarrow>
         nodes (the_grid st this) ! i ! j < length (objs st)"
  using assms unfolding grid_ok_def by auto

lemma grid_ok_cell:
  assumes "grid_ok st this" and "isInside st this x y"
  shows "cell_addr st this x y < length (objs st)"
    and "node_x (the_node st (cell_addr st this x y)) = x"
    and "node_y (the_node st (cell_addr st this x y)) = y"
proof -
  from assms have y: "0 \<le> y" "nat y < length (nodes (the_grid st this))"
    and x: "0 \<le> x" "nat x < nat (width (the_grid st this))"
    by (auto simp: grid_ok_def isInside_def)
  with assms(1) have "cell_addr st this x y < length (objs st) \<and>
      node_x (the_node st (cell_addr st this x y)) = int (nat x) \<and>
      node_y (the_node st (cell_addr st this x y)) = int (nat y)"
    unfolding grid_ok_def cell_addr_def by blast
  with x y show "cell_addr st this x y < length (objs st)"
    and "node_x (the_node st (cell_addr st this x y)) = x"
    and "node_y (the_node st (cell_addr st this x y)) = y"
    by simp_all
qed

lemma node_ref_inside:
  assumes "grid_ok st this" and "isInside st this x y"
  shows "node_ref (nodes (the_grid st this)) y x = Inr (cell_addr st this x y)"
proof -
  from assms have y: "0 \<le> y" "nat y < length (nodes (the_grid st this))"
    by (auto simp: grid_ok_def isInside_def)
  with assms have x: "0 \<le> x" "nat x < length (nodes (the_grid st this) ! nat y)"
    by (auto simp: grid_ok_def isInside_def)
  from y have "index (nodes (the_grid st this)) y = Some (nodes (the_grid st this) ! nat y)"
    by (simp add: index_def)
  moreover from x have "index (nodes (the_grid st this) ! nat y) x = Some (cell_addr st this x y)"
    by (simp add: index_def cell_addr_def)
  ultimately show ?thesis by (simp add: node_ref_def)
qed

lemma node_ref_nat:
  "i < length ns \<Longrightarrow> j < length (ns ! i) \<Longrightarrow> node_ref ns (int i) (int j) = Inr (ns ! i ! j)"
  by (simp add: node_ref_def index_def)

lemma node_ref_Inr:
  "node_ref ns y x = Inr a \<longleftrightarrow>
     0 \<le> y \<and> y < int (length ns) \<and> 0 \<le> x \<and> x < int (length (ns ! nat y)) \<and> a = ns ! nat y ! nat x"
  by (auto simp: node_ref_def index_def split: option.splits if_splits)

lemma node_ref_grid_ok:
  assumes ok: "grid_ok st this" and ref: "node_ref (nodes (the_grid st this)) y x = Inr a"
  shows "isInside st this x y" and "a = cell_addr st this x y"
proof -
  note D = grid_ok_dims [OF ok]
  from ref have y0: "0 \<le> y" "y < int (length (nodes (the_grid st this)))"
    and x: "0 \<le> x" "x < int (length (nodes (the_grid st this) ! nat y))"
    and a: "a = nodes (the_grid st this) ! nat y ! nat x"
    unfolding node_ref_Inr by simp_all
  from y0 have y: "0 \<le> y" "nat y < nat (height (the_grid st this))"
    unfolding D(4) by linarith+
  from x have "nat x < nat (width (the_grid st this))"
    unfolding D(5) [OF y(2)] by linarith
  with y x show "isInside st this x y" unfolding isInside_def by linarith
  from a show "a = cell_addr st this x y" by (simp add: cell_addr_def)
qed

lemma isWalkableAt_eq:
  assumes "grid_ok st this"
  shows "isWalkableAt st this x y b = Inr (open_at st this x y b)"
proof (cases "isInside st this x y")
  case True
  with assms show ?thesis
    by (simp add: isWalkableAt_def open_at_def node_ref_inside split: walkability.splits)
next
  case False
  then show ?thesis by (simp add: isWalkableAt_def open_at_def)
qed

lemma walks_open: "grid_ok st this \<Longrightarrow> walks st this x y side = open_at st this x y (Some side)"
  by (simp add: walks_def isWalkableAt_eq)

lemma open_at_inside: "open_at st this x y b \<Longrightarrow> isInside st this x y"
  by (simp add: open_at_def)

lemma open_at_cong:
  assumes "the_grid st' this = the_grid st this"
    and "isInside st this x y \<Longrightarrow>
         walkable (the_node st' (cell_addr st this x y)) = walkable (the_node st (cell_addr st this x y))"
  shows "open_at st' this x y b = open_at st this x y b"
proof -
  have i: "isInside st' this x y = isInside st this x y"
    and c: "cell_addr st' this x y = cell_addr st this x y"
    using assms(1) by (simp_all add: isInside_def cell_addr_def)
  show ?thesis
  proof (cases "isInside st this x y")
    case True
    with assms(2) i c show ?thesis by (simp add: open_at_def)
  next
    case False
    with i show ?thesis by (simp add: open_at_def)
  qed
qed

lemma getNodeAt_inside:
  "grid_ok st this \<Longrightarrow> isInside st this x y \<Longrightarrow> getNodeAt st this x y = Inr (snapshot st this x y)"
  by (simp add: getNodeAt_def node_ref_inside snapshot_def)

lemma pos_snapshot:
  assumes "grid_ok st this" and "isInside st this x y"
  shows "pos (snapshot st this x y) = (x, y)"
proof -
  from assms have y: "0 \<le> y" "nat y < length (nodes (the_grid st this))"
    and x: "0 \<le> x" "nat x < nat (width (the_grid st this))"
    by (auto simp: grid_ok_def isInside_def)
  with assms(1) have "node_x (the_node st (cell_addr st this x y)) = int (nat x)"
    and "node_y (the_node st (cell_addr st this x y)) = int (nat y)"
    unfolding grid_ok_def cell_addr_def by blast+
  with x y show ?thesis by (simp add: pos_def snapshot_def)
qed

subsection \<open>Neighbors\<close>

lemma map_pick: "map f (pick c v) = pick c (f v)"
  by (simp add: pick_def)

lemma in_set_pick [simp]: "p \<in> set (pick c v) \<longleftrightarrow> c \<and> p = v"
  by (auto simp: pick_def)

lemma pick_if: "pick c v = (if c then [v] else [])"
  by (simp add: pick_def)

lemma subseq_pick4:
  "subseq (pick a p @ pick b q @ pick c r @ pick d s) [p, q, r, s]"
  by (cases a; cases b; cases c; cases d; simp add: pick_def)

lemma picks_empty:
  assumes "\<not> s0" "\<not> s1" "\<not> s2" "\<not> s3"
  shows "pick s0 a @ pick s1 b @ pick s2 c @ pick s3 d @
         (if ad then
            pick ((if dcc then s3 \<and> s0 else s3 \<or> s0) \<and> c0) e @
            pick ((if dcc then s0 \<and> s1 else s0 \<or> s1) \<and> c1) f @
            pick ((if dcc then s1 \<and> s2 else s1 \<or> s2) \<and> c2) g @
            pick ((if dcc then s2 \<and> s3 else s2 \<or> s3) \<and> c3) h
          else []) = []"
  using assms by (simp add: pick_def)

lemma iff_conjD: "(A \<longleftrightarrow> E \<and> C) \<Longrightarrow> E \<longrightarrow> (A \<longleftrightarrow> C)"
  by blast

lemma visit_open:
  assumes "grid_ok st this"
  shows "visit st this (Inr (open_at st this xx yy b \<and> r)) yy xx ns =
         Inr (ns @ pick (open_at st this xx yy b \<and> r) (snapshot st this xx yy), open_at st this xx yy b \<and> r)"
proof (cases "open_at st this xx yy b \<and> r")
  case True
  then have "isInside st this xx yy" by (simp add: open_at_def)
  with assms True show ?thesis
    by (simp add: visit_def node_ref_inside pick_def snapshot_def)
next
  case False
  then show ?thesis by (auto simp add: visit_def pick_def)
qed

lemma visit_diag:
  assumes "grid_ok st this"
  shows "visit st this (Inr (d \<and> open_at st this xx yy b \<and> r)) yy xx ns =
         Inr (ns @ pick (d \<and> open_at st this xx yy b \<and> r) (snapshot st this xx yy), d \<and> open_at st this xx yy b \<and> r)"
proof (cases d)
  case True
  with visit_open [OF assms, of xx yy b r ns] show ?thesis by simp
next
  case False
  then show ?thesis by (simp add: visit_def pick_def)
qed

lemma getNeighbors_eq:
  assumes ok: "grid_ok st this"
  shows "getNeighbors st this node ad dcc =
         Inr (map (\<lambda>(cx, cy). snapshot st this cx cy)
                (neighbor_coords st this (node_x node) (node_y node) ad dcc))"
proof (cases "diagonal_flags dcc
         (open_at st this (node_x node) (node_y node - 1) (Some ''bottom'') \<and> open_at st this (node_x node) (node_y node) (Some ''top''))
         (open_at st this (node_x node + 1) (node_y node) (Some ''left'') \<and> open_at st this (node_x node) (node_y node) (Some ''right''))
         (open_at st this (node_x node) (node_y node + 1) (Some ''top'') \<and> open_at st this (node_x node) (node_y node) (Some ''bottom''))
         (open_at st this (node_x node - 1) (node_y node) (Some ''right'') \<and> open_at st this (node_x node) (node_y node) (Some ''left''))")
  case (fields d0 d1 d2 d3)
  show ?thesis
    unfolding getNeighbors_def neighbor_coords_def Let_def
    by (cases ad)
       (simp_all only: isWalkableAt_eq [OF ok] andE_Inr visit_open [OF ok] visit_diag [OF ok]
          thenE_Inr prod.case fields append_Nil append_Nil2 append_assoc if_True if_False
          not_True_eq_False not_False_eq_True map_append map_pick list.map)
qed

lemma neighbor_coords_unfold:
  "neighbor_coords st this x y ad dcc =
     pick (open_at st this x (y - 1) (Some ''bottom'') \<and> open_at st this x y (Some ''top'')) (x, y - 1) @
     pick (open_at st this (x + 1) y (Some ''left'') \<and> open_at st this x y (Some ''right'')) (x + 1, y) @
     pick (open_at st this x (y + 1) (Some ''top'') \<and> open_at st this x y (Some ''bottom'')) (x, y + 1) @
     pick (open_at st this (x - 1) y (Some ''right'') \<and> open_at st this x y (Some ''left'')) (x - 1, y) @
     (if ad then diagonal_coords st this x y dcc else [])"
  unfolding neighbor_coords_def diagonal_coords_def diagonal_flags_def Let_def
  by (cases dcc) (simp_all only: if_True if_False prod.case)

lemma subseq_diagonal_coords:
  "subseq (diagonal_coords st this x y dcc) [(x - 1, y - 1), (x + 1, y - 1), (x + 1, y + 1), (x - 1, y + 1)]"
  unfolding diagonal_coords_def Let_def by (rule subseq_pick4)

lemma neighbor_coords_inside:
  assumes "p \<in> set (neighbor_coords st this x y ad dcc)"
  shows "isInside st this (fst p) (snd p)"
  using assms unfolding neighbor_coords_unfold diagonal_coords_def Let_def
  by (cases ad) (auto dest: open_at_inside)

lemma getNeighbors_pos:
  assumes ok: "grid_ok st this"
  shows "\<exists>ns. getNeighbors st this node ad dcc = Inr ns \<and>
              map pos ns = neighbor_coords st this (node_x node) (node_y node) ad dcc \<and>
              (\<forall>n \<in> set ns. isInside st this (node_x n) (node_y n) \<and>
                              getNodeAt st this (node_x n) (node_y n) = Inr n)"
proof -
  let ?cs = "neighbor_coords st this (node_x node) (node_y node) ad dcc"
  let ?ns = "map (\<lambda>(cx, cy). snapshot st this cx cy) ?cs"
  have p: "pos (snapshot st this cx cy) = (cx, cy)" and i: "isInside st this cx cy"
    if "(cx, cy) \<in> set ?cs" for cx cy
    using neighbor_coords_inside [OF that] pos_snapshot [OF ok] by simp_all
  have "map pos ?ns = ?cs"
    using p by (intro nth_equalityI) (auto simp: in_set_conv_nth split: prod.splits)
  moreover have "isInside st this (node_x n) (node_y n) \<and> getNodeAt st this (node_x n) (node_y n) = Inr n"
    if "n \<in> set ?ns" for n
  proof -
    from that obtain cx cy where c: "(cx, cy) \<in> set ?cs" and n: "n = snapshot st this cx cy"
      by auto
    from p [OF c] n have "node_x n = cx" "node_y n = cy"
      by (simp_all add: pos_def)
    with i [OF c] n getNodeAt_inside [OF ok i [OF c]] show ?thesis by simp
  qed
  ultimately show ?thesis
    using getNeighbors_eq [OF ok, of node ad dcc] by blast
qed

lemma neighbor_coords_orth:
  "(x, y - 1) \<in> set (neighbor_coords st this x y ad dcc) \<longleftrightarrow>
     open_at st this x (y - 1) (Some ''bottom'') \<and> open_at st this x y (Some ''top'')"
  "(x + 1, y) \<in> set (neighbor_coords st this x y ad dcc) \<longleftrightarrow>
     open_at st this (x + 1) y (Some ''left'') \<and> open_at st this x y (Some ''right'')"
  "(x, y + 1) \<in> set (neighbor_coords st this x y ad dcc) \<longleftrightarrow>
     open_at st this x (y + 1) (Some ''top'') \<and> open_at st this x y (Some ''bottom'')"
  "(x - 1, y) \<in> set (neighbor_coords st this x y ad dcc) \<longleftrightarrow>
     open_at st this (x - 1) y (Some ''right'') \<and> open_at st this x y (Some ''left'')"
  unfolding neighbor_coords_unfold diagonal_coords_def Let_def by (cases ad; simp)+

lemma neighbor_coords_diag:
  "(x - 1, y - 1) \<in> set (neighbor_coords st this x y True dcc) \<longleftrightarrow>
     (if dcc
      then (x - 1, y) \<in> set (neighbor_coords st this x y True dcc) \<and>
           (x, y - 1) \<in> set (neighbor_coords st this x y True dcc)
      else (x - 1, y) \<in> set (neighbor_coords st this x y True dcc) \<or>
           (x, y - 1) \<in> set (neighbor_coords st this x y True dcc)) \<and>
     open_at st this (x - 1) (y - 1) (Some ''bottom'') \<and> open_at st this (x - 1) y (Some ''top'') \<and>
     open_at st this (x - 1) (y - 1) (Some ''right'') \<and> open_at st this x (y - 1) (Some ''left'')"
  "(x + 1, y - 1) \<in> set (neighbor_coords st this x y True dcc) \<longleftrightarrow>
     (if dcc
      then (x, y - 1) \<in> set (neighbor_coords st this x y True dcc) \<and>
           (x + 1, y) \<in> set (neighbor_coords st this x y True dcc)
      else (x, y - 1) \<in> set (neighbor_coords st this x y True dcc) \<or>
           (x + 1, y) \<in> set (neighbor_coords st this x y True dcc)) \<and>
     open_at st this (x + 1) (y - 1) (Some ''bottom'') \<and> open_at st this (x + 1) y (Some ''top'') \<and>
     open_at st this (x + 1) (y - 1) (Some ''left'') \<and> open_at st this x (y - 1) (Some ''right'')"
  "(x + 1, y + 1) \<in> set (neighbor_coords st this x y True dcc) \<longleftrightarrow>
     (if dcc
      then (x + 1, y) \<in> set (neighbor_coords st this x y True dcc) \<and>
           (x, y + 1) \<in> set (neighbor_coords st this x y True dcc)
      else (x + 1, y) \<in> set (neighbor_coords st this x y True dcc) \<or>
           (x, y + 1) \<in> set (neighbor_coords st this x y True dcc)) \<and>
     open_at st this (x + 1) (y + 1) (Some ''top'') \<and> open_at st this (x + 1) y (Some ''bottom'') \<and>
     open_at st this (x + 1) (y + 1) (Some ''left'') \<and> open_at st this x (y + 1) (Some ''right'')"
  "(x - 1, y + 1) \<in> set (neighbor_coords st this x y True dcc) \<longleftrightarrow>
     (if dcc
      then (x, y + 1) \<in> set (neighbor_coords st this x y True dcc) \<and>
           (x - 1, y) \<in> set (neighbor_coords st this x y True dcc)
      else (x, y + 1) \<in> set (neighbor_coords st this x y True dcc) \<or>
           (x - 1, y) \<in> set (neighbor_coords st this x y True dcc)) \<and>
     open_at st this (x - 1) (y + 1) (Some ''top'') \<and> open_at st this (x - 1) y (Some ''bottom'') \<and>
     open_at st this (x - 1) (y + 1) (Some ''right'') \<and> open_at st this x (y + 1) (Some ''left'')"
  unfolding neighbor_coords_orth
  unfolding neighbor_coords_unfold diagonal_coords_def Let_def by (cases dcc; simp)+

subsection \<open>The loop nest that allocates the nodes\<close>

lemma extends_refl [simp]: "extends st st"
  by (simp add: extends_def)

lemma extends_trans: "extends st st' \<Longrightarrow> extends st' st'' \<Longrightarrow> extends st st''"
  unfolding extends_def by auto

lemma extends_length: "extends st st' \<Longrightarrow> length (objs st) \<le> length (objs st')"
  by (simp add: extends_def)

lemma extends_node: "extends st st' \<Longrightarrow> a < length (objs st) \<Longrightarrow> the_node st' a = the_node st a"
  by (simp add: extends_def)

lemma fill_cells:
  assumes "\<And>j st'. j \<in> set js \<Longrightarrow> extends st0 st' \<Longrightarrow> cell j i st' = Inr (c j)"
    and "extends st0 st"
  shows "foldE (\<lambda>j (row, st). thenE (cell j i st) (\<lambda>n. let (a, st') = alloc_Node n st in Inr (row @ [a], st')))
           js (row, st) =
         Inr (row @ [length (objs st) ..< length (objs st) + length js], st\<lparr>objs := objs st @ map c js\<rparr>)"
  using assms
proof (induction js arbitrary: row st)
  case Nil
  then show ?case by simp
next
  case (Cons j js)
  let ?st1 = "st\<lparr>objs := objs st @ [c j]\<rparr>"
  have c: "cell j i st = Inr (c j)"
    using Cons.prems by simp
  have ext: "extends st0 ?st1"
    using Cons.prems(2) by (auto simp: extends_def the_node_def nth_append)
  have IH: "foldE (\<lambda>j (row, st). thenE (cell j i st) (\<lambda>n. let (a, st') = alloc_Node n st in Inr (row @ [a], st')))
           js (row @ [length (objs st)], ?st1) =
         Inr ((row @ [length (objs st)]) @ [length (objs ?st1) ..< length (objs ?st1) + length js],
              ?st1\<lparr>objs := objs ?st1 @ map c js\<rparr>)"
    by (rule Cons.IH) (use Cons.prems ext in auto)
  have upt: "[length (objs st) ..< length (objs st) + length (j # js)] =
             length (objs st) # [length (objs ?st1) ..< length (objs ?st1) + length js]"
  proof -
    have "[length (objs st) ..< length (objs st) + Suc (length js)] =
          length (objs st) # [Suc (length (objs st)) ..< length (objs st) + Suc (length js)]"
      by (rule upt_conv_Cons) simp
    then show ?thesis by simp
  qed
  have step: "foldE (\<lambda>j (row, st). thenE (cell j i st) (\<lambda>n. let (a, st') = alloc_Node n st in Inr (row @ [a], st')))
           (j # js) (row, st) =
        foldE (\<lambda>j (row, st). thenE (cell j i st) (\<lambda>n. let (a, st') = alloc_Node n st in Inr (row @ [a], st')))
           js (row @ [length (objs st)], ?st1)"
    by (simp add: c alloc_Node_def)
  have eq1: "(row @ [length (objs st)]) @ [length (objs ?st1) ..< length (objs ?st1) + length js] =
             row @ [length (objs st) ..< length (objs st) + length (j # js)]"
    by (simp only: upt append_assoc append_Cons append_Nil)
  have eq2: "?st1\<lparr>objs := objs ?st1 @ map c js\<rparr> = st\<lparr>objs := objs st @ map c (j # js)\<rparr>"
    by simp
  show ?case
    by (simp only: step IH eq1 eq2)
qed

lemma fill_row_eq:
  assumes "\<And>j st'. j < nat w \<Longrightarrow> extends st st' \<Longrightarrow> cell j i st' = Inr (c j)"
    and "new_Array w = Inr ()"
  shows "fill_row cell w i st =
         Inr ([length (objs st) ..< length (objs st) + nat w], st\<lparr>objs := objs st @ map c [0..<nat w]\<rparr>)"
  unfolding fill_row_def
  using fill_cells [of "[0..<nat w]" st cell i c st "[]"] assms by simp

lemma fill_row_RangeError:
  "new_Array w \<noteq> Inr () \<Longrightarrow> fill_row cell w i st = Inl RangeError"
  using new_Array_cases [of w] by (auto simp: fill_row_def)

lemma fill_rows_loop:
  assumes "\<And>i j st'. i \<in> set is \<Longrightarrow> j < nat w \<Longrightarrow> extends st0 st' \<Longrightarrow> cell j i st' = Inr (c j i)"
    and "extends st0 st" and "new_Array w = Inr ()"
  shows "\<exists>rows st'. foldE (\<lambda>i (ns, st). thenE (fill_row cell w i st) (\<lambda>(row, st'). Inr (ns @ [row], st')))
                       is (ns, st) = Inr (ns @ rows, st') \<and>
                     extends st st' \<and> grids st' = grids st \<and> rows_filled st st' w c is rows"
  using assms
proof (induction "is" arbitrary: ns st)
  case Nil
  then show ?case by (simp add: rows_filled_def)
next
  case (Cons i "is")
  let ?n = "length (objs st)"
  let ?row = "[?n ..< ?n + nat w]"
  let ?st1 = "st\<lparr>objs := objs st @ map (\<lambda>j. c j i) [0..<nat w]\<rparr>"
  let ?body = "\<lambda>i (ns, st). thenE (fill_row cell w i st) (\<lambda>(row, st'). Inr (ns @ [row], st'))"
  have row: "fill_row cell w i st = Inr (?row, ?st1)"
  proof (rule fill_row_eq)
    fix j st' assume "j < nat w" "extends st st'"
    then show "cell j i st' = Inr (c j i)"
      using Cons.prems(1) [of i j st'] Cons.prems(2) extends_trans by auto
  qed (rule Cons.prems)
  have ext1: "extends st ?st1"
    by (simp add: extends_def the_node_def nth_append)
  then have ext01: "extends st0 ?st1"
    using Cons.prems(2) extends_trans by blast
  obtain rows st' where
    run: "foldE ?body is (ns @ [?row], ?st1) = Inr ((ns @ [?row]) @ rows, st')"
    and ext: "extends ?st1 st'" and gr: "grids st' = grids ?st1"
    and filled: "rows_filled ?st1 st' w c is rows"
    using Cons.IH [of ?st1 "ns @ [?row]"] Cons.prems(1,3) ext01 by auto
  have len1: "length (objs ?st1) = ?n + nat w"
    by simp
  have old: "length (rows ! k) = nat w" "?n + nat w \<le> rows ! k ! j" "rows ! k ! j < length (objs st')"
    "the_node st' (rows ! k ! j) = c j (is ! k)" if "k < length is" "j < nat w" for k j
    using filled that unfolding rows_filled_def len1 by blast+
  have oldlen: "length (rows ! k) = nat w" if "k < length is" for k
    using filled that unfolding rows_filled_def by blast
  have "rows_filled st st' w c (i # is) (?row # rows)"
    unfolding rows_filled_def
  proof (intro conjI allI impI)
    show "length (?row # rows) = length (i # is)"
      using filled by (simp add: rows_filled_def)
  next
    fix k assume k: "k < length (i # is)"
    show "length ((?row # rows) ! k) = nat w"
      using oldlen k by (cases k) auto
  next
    fix k j assume k: "k < length (i # is)" and j: "j < nat w"
    show "length (objs st) \<le> (?row # rows) ! k ! j"
    proof (cases k)
      case 0 then show ?thesis using j by simp
    next
      case (Suc k') then show ?thesis using old(2) [of k' j] k j by simp
    qed
    show "(?row # rows) ! k ! j < length (objs st')"
    proof (cases k)
      case 0 then show ?thesis using j extends_length [OF ext] by simp
    next
      case (Suc k') then show ?thesis using old(3) [of k' j] k j by simp
    qed
    show "the_node st' ((?row # rows) ! k ! j) = c j ((i # is) ! k)"
    proof (cases k)
      case 0
      have "the_node st' (?n + j) = the_node ?st1 (?n + j)"
        using ext j by (intro extends_node) auto
      also have "\<dots> = c j i"
        using j by (simp add: the_node_def nth_append)
      finally show ?thesis using 0 j by simp
    next
      case (Suc k')
      then show ?thesis using old(4) [of k' j] k j by simp
    qed
  qed
  moreover have "extends st st'"
    using ext1 ext extends_trans by blast
  moreover have "grids st' = grids st"
    using gr by simp
  moreover have "foldE ?body (i # is) (ns, st) = Inr (ns @ ?row # rows, st')"
    using run by (simp add: row)
  ultimately show ?case by blast
qed

lemma fill_rows_loop_RangeError:
  assumes "new_Array w \<noteq> Inr ()" and "is \<noteq> []"
  shows "foldE (\<lambda>i (ns, st). thenE (fill_row cell w i st) (\<lambda>(row, st'). Inr (ns @ [row], st')))
           is (ns, st) = Inl RangeError"
  using assms by (cases "is") (simp_all add: fill_row_RangeError)

lemma rows_filled_upt:
  assumes "rows_filled st st' w c [0..<n] ns"
  shows "length ns = n"
    and "i < n \<Longrightarrow> length (ns ! i) = nat w"
    and "i < n \<Longrightarrow> j < nat w \<Longrightarrow> length (objs st) \<le> ns ! i ! j"
    and "i < n \<Longrightarrow> j < nat w \<Longrightarrow> ns ! i ! j < length (objs st')"
    and "i < n \<Longrightarrow> j < nat w \<Longrightarrow> the_node st' (ns ! i ! j) = c j i"
  using assms unfolding rows_filled_def by auto

lemma fill_rows_Inr:
  assumes cell: "\<And>i j st'. i < nat h \<Longrightarrow> j < nat w \<Longrightarrow> extends st st' \<Longrightarrow> cell j i st' = Inr (c j i)"
    and run: "fill_rows cell w h st = Inr (ns, st')"
  shows "extends st st' \<and> grids st' = grids st \<and> rows_filled st st' w c [0..<nat h] ns \<and>
         new_Array h = Inr ()"
proof -
  let ?body = "\<lambda>i (ns, st). thenE (fill_row cell w i st) (\<lambda>(row, st'). Inr (ns @ [row], st'))"
  have h: "new_Array h = Inr ()"
    using run new_Array_cases [of h] by (auto simp: fill_rows_def)
  then have loop: "foldE ?body [0..<nat h] ([], st) = Inr (ns, st')"
    using run by (simp add: fill_rows_def)
  show ?thesis
  proof (cases "new_Array w = Inr ()")
    case True
    obtain rows st'' where "foldE ?body [0..<nat h] ([], st) = Inr ([] @ rows, st'')"
      and "extends st st''" "grids st'' = grids st" "rows_filled st st'' w c [0..<nat h] rows"
      using fill_rows_loop [of "[0..<nat h]" w st cell c st "[]"] cell True by auto
    with loop h show ?thesis by simp
  next
    case False
    have "[0..<nat h] = []"
    proof (rule ccontr)
      assume "[0..<nat h] \<noteq> []"
      from fill_rows_loop_RangeError [OF False this, of cell "[]" st] loop show False by simp
    qed
    with loop h show ?thesis by (simp add: rows_filled_def)
  qed
qed

lemma fill_rows_total:
  assumes cell: "\<And>i j st'. i < nat h \<Longrightarrow> j < nat w \<Longrightarrow> extends st st' \<Longrightarrow> cell j i st' = Inr (c j i)"
    and h: "new_Array h = Inr ()" and w: "0 < h \<Longrightarrow> new_Array w = Inr ()"
  shows "\<exists>ns st'. fill_rows cell w h st = Inr (ns, st')"
proof (cases "0 < h")
  case True
  with fill_rows_loop [of "[0..<nat h]" w st cell c st "[]"] cell w h show ?thesis
    by (auto simp: fill_rows_def)
next
  case False
  with h show ?thesis by (simp add: fill_rows_def)
qed

lemma grid_okI:
  assumes "this < length (grids st)"
    and "new_Array (height (the_grid st this)) = Inr ()"
    and "0 < height (the_grid st this) \<Longrightarrow> new_Array (width (the_grid st this)) = Inr ()"
    and "rows_filled st0 st (width (the_grid st this)) c [0..<nat (height (the_grid st this))] (nodes (the_grid st this))"
    and "\<And>i j. node_x (c j i) = int j \<and> node_y (c j i) = int i"
  shows "grid_ok st this"
  unfolding grid_ok_def
proof (intro conjI allI impI)
  note R = rows_filled_upt [OF assms(4)]
  show "length (nodes (the_grid st this)) = nat (height (the_grid st this))"
    using R(1) .
  fix i assume i: "i < length (nodes (the_grid st this))"
  then have i': "i < nat (height (the_grid st this))" using R(1) by simp
  show "length (nodes (the_grid st this) ! i) = nat (width (the_grid st this))"
    using R(2) [OF i'] .
  fix j assume j: "j < nat (width (the_grid st this))"
  show "nodes (the_grid st this) ! i ! j < length (objs st)"
    using R(4) [OF i' j] .
  show "node_x (the_node st (nodes (the_grid st this) ! i ! j)) = int j"
    using R(5) [OF i' j] assms(5) by simp
  show "node_y (the_node st (nodes (the_grid st this) ! i ! j)) = int i"
    using R(5) [OF i' j] assms(5) by simp
qed (use assms in auto)

lemma grid_ok_extends:
  assumes ok: "grid_ok st this" and ext: "extends st st'"
    and same: "the_grid st' this = the_grid st this" and len: "this < length (grids st')"
  shows "grid_ok st' this"
  unfolding grid_ok_def same
proof (intro conjI allI impI)
  fix i j
  assume i: "i < length (nodes (the_grid st this))" and j: "j < nat (width (the_grid st this))"
  from ok i j have a: "nodes (the_grid st this) ! i ! j < length (objs st)"
    and x: "node_x (the_node st (nodes (the_grid st this) ! i ! j)) = int j"
    and y: "node_y (the_node st (nodes (the_grid st this) ! i ! j)) = int i"
    unfolding grid_ok_def by blast+
  show "nodes (the_grid st this) ! i ! j < length (objs st')"
    using a extends_length [OF ext] by simp
  show "node_x (the_node st' (nodes (the_grid st this) ! i ! j)) = int j"
    using x extends_node [OF ext a] by simp
  show "node_y (the_node st' (nodes (the_grid st this) ! i ! j)) = int i"
    using y extends_node [OF ext a] by simp
qed (use ok len in \<open>auto simp: grid_ok_def\<close>)

subsection \<open>Writing walkable\<close>

lemma the_node_set_walkable:
  "a < length (objs st) \<Longrightarrow>
   the_node (set_walkable a v st) b = (if b = a then (the_node st a)\<lparr>walkable := v\<rparr> else the_node st b)"
  by (simp add: the_node_def set_walkable_def)

lemma the_node_set_walkable_any:
  "the_node (set_walkable a v st) b =
     (if b = a \<and> a < length (objs st) then (the_node st a)\<lparr>walkable := v\<rparr> else the_node st b)"
proof (cases "a < length (objs st)")
  case True
  then show ?thesis by (simp add: the_node_def set_walkable_def nth_list_update)
next
  case False
  then have "length (objs st) \<le> a" by simp
  then have "(objs st)[a := (objs st ! a)\<lparr>walkable := v\<rparr>] = objs st"
    by (rule list_update_beyond)
  with False show ?thesis by (simp add: the_node_def set_walkable_def)
qed

lemma the_node_set_walkable_other:
  "b \<noteq> a \<Longrightarrow> the_node (set_walkable a v st) b = the_node st b"
  by (simp add: the_node_set_walkable_any)

lemma set_walkable_frame [simp]:
  "grids (set_walkable a v st) = grids st"
  "length (objs (set_walkable a v st)) = length (objs st)"
  by (simp_all add: set_walkable_def)

lemma set_walkable_coords [simp]:
  "node_x (the_node (set_walkable a v st) b) = node_x (the_node st b)"
  "node_y (the_node (set_walkable a v st) b) = node_y (the_node st b)"
  by (simp_all add: the_node_set_walkable_any)

lemma the_grid_set_walkable [simp]: "the_grid (set_walkable a v st) g = the_grid st g"
  by (simp add: the_grid_def)

lemma grid_ok_set_walkable: "grid_ok st this \<Longrightarrow> grid_ok (set_walkable a v st) this"
  by (simp add: grid_ok_def)

lemma setWalkableAt_Inr:
  assumes ok: "grid_ok st this" and set: "setWalkableAt st this x y v = Inr st'"
  shows "isInside st this x y" and "st' = set_walkable (cell_addr st this x y) v st"
proof -
  from set obtain a where ref: "node_ref (nodes (the_grid st this)) y x = Inr a"
    and st': "st' = set_walkable a v st"
    by (auto simp: setWalkableAt_def thenE_eq_Inr)
  from node_ref_grid_ok [OF ok ref] st'
  show "isInside st this x y" and "st' = set_walkable (cell_addr st this x y) v st"
    by simp_all
qed

lemma setWalkableAt_other_grid:
  assumes ok: "grid_ok st this" and ok': "grid_ok st other"
    and set: "setWalkableAt st this x y v = Inr st'"
    and apart: "\<And>x' y'. isInside st other x' y' \<Longrightarrow> cell_addr st other x' y' \<noteq> cell_addr st this x y"
  shows "isWalkableAt st' other x' y' b = isWalkableAt st other x' y' b"
proof -
  note S = setWalkableAt_Inr [OF ok set]
  have ok'': "grid_ok st' other"
    unfolding S(2) using ok' by (rule grid_ok_set_walkable)
  have "open_at st' other x' y' b = open_at st other x' y' b"
  proof (rule open_at_cong)
    show "the_grid st' other = the_grid st other" by (simp add: S(2))
    show "walkable (the_node st' (cell_addr st other x' y')) = walkable (the_node st (cell_addr st other x' y'))"
      if "isInside st other x' y'"
      unfolding S(2) using apart [OF that] by (simp add: the_node_set_walkable_other)
  qed
  then show ?thesis
    using isWalkableAt_eq [OF ok''] isWalkableAt_eq [OF ok'] by simp
qed

subsection \<open>The loop nest that reads the matrix\<close>

lemma marked_refl: "marked st st {}"
  by (simp add: marked_def)

lemma marked_set:
  assumes "marked st0 st A" and "a < length (objs st0)"
  shows "marked st0 (set_walkable a (Flag False) st) (insert a A)"
  using assms by (auto simp: marked_def the_node_set_walkable)

lemma matrix_at_row:
  "i < length m \<Longrightarrow> matrix_at m (int i) (int j) = Inr (cell_value m i j)"
  by (simp add: cell_value_def matrix_at_def index_def)

lemma mark_cell_eq:
  assumes "i < length m" "i < length ns" "j < length (ns ! i)"
  shows "mark_cell m ns i j st =
         Inr (if truthy (cell_value m i j) then set_walkable (ns ! i ! j) (Flag False) st else st)"
  using assms by (simp add: mark_cell_def matrix_at_row node_ref_nat)

lemma mark_row:
  assumes "i < length m" "i < length ns"
    and "\<And>j. j \<in> set js \<Longrightarrow> j < length (ns ! i) \<and> ns ! i ! j < length (objs st0)"
    and "marked st0 st A"
  shows "\<exists>st'. foldE (\<lambda>j. mark_cell m ns i j) js st = Inr st' \<and>
               marked st0 st' (A \<union> blocked m ns {i} (set js))"
  using assms(3,4)
proof (induction js arbitrary: st A)
  case Nil
  then show ?case by (simp add: blocked_def)
next
  case (Cons j js)
  let ?st1 = "if truthy (cell_value m i j) then set_walkable (ns ! i ! j) (Flag False) st else st"
  let ?A1 = "if truthy (cell_value m i j) then insert (ns ! i ! j) A else A"
  have j: "j < length (ns ! i)" "ns ! i ! j < length (objs st0)"
    using Cons.prems(1) [of j] by simp_all
  have cell: "mark_cell m ns i j st = Inr ?st1"
    using assms(1,2) j(1) by (rule mark_cell_eq)
  have "marked st0 ?st1 ?A1"
    using Cons.prems(2) j marked_set by auto
  then obtain st' where run: "foldE (\<lambda>j. mark_cell m ns i j) js ?st1 = Inr st'"
    and m: "marked st0 st' (?A1 \<union> blocked m ns {i} (set js))"
    using Cons.IH [of ?st1 ?A1] Cons.prems(1) by auto
  have "?A1 \<union> blocked m ns {i} (set js) = A \<union> blocked m ns {i} (set (j # js))"
    by (auto simp: blocked_def)
  with m run cell show ?case by simp
qed

lemma mark_rows:
  assumes "\<And>i j. i \<in> set is \<Longrightarrow> j \<in> set js \<Longrightarrow>
             i < length m \<and> i < length ns \<and> j < length (ns ! i) \<and> ns ! i ! j < length (objs st0)"
    and "set is \<subseteq> {..<length m}" "set is \<subseteq> {..<length ns}"
    and "marked st0 st A"
  shows "\<exists>st'. foldE (\<lambda>i. foldE (\<lambda>j. mark_cell m ns i j) js) is st = Inr st' \<and>
               marked st0 st' (A \<union> blocked m ns (set is) (set js))"
  using assms
proof (induction "is" arbitrary: st A)
  case Nil
  then show ?case by (simp add: blocked_def)
next
  case (Cons i "is")
  have i: "i < length m" "i < length ns"
    using Cons.prems(2,3) by auto
  obtain st1 where row: "foldE (\<lambda>j. mark_cell m ns i j) js st = Inr st1"
    and m1: "marked st0 st1 (A \<union> blocked m ns {i} (set js))"
    using mark_row [OF i _ Cons.prems(4), of js] Cons.prems(1) [of i] by auto
  obtain st' where run: "foldE (\<lambda>i. foldE (\<lambda>j. mark_cell m ns i j) js) is st1 = Inr st'"
    and m: "marked st0 st' ((A \<union> blocked m ns {i} (set js)) \<union> blocked m ns (set is) (set js))"
    using Cons.IH [OF _ _ _ m1] Cons.prems(1,2,3) by auto
  have "(A \<union> blocked m ns {i} (set js)) \<union> blocked m ns (set is) (set js) =
        A \<union> blocked m ns (set (i # is)) (set js)"
    by (auto simp: blocked_def)
  with m run row show ?case by simp
qed

subsection \<open>The constructor\<close>

lemma size_differs_False:
  "size_differs m w h = Inr False \<Longrightarrow> int (length m) = h"
  by (auto simp: size_differs_def split: if_splits option.splits)

lemma size_differs_True:
  assumes "int (length m) \<noteq> h \<or> (m \<noteq> [] \<and> int (length (hd m)) \<noteq> w)"
  shows "size_differs m w h = Inr True"
  using assms by (cases m) (auto simp: size_differs_def index_def)

lemma buildNodes_Inr:
  assumes run: "buildNodes w h matrix (st :: 's heap) = Inr (ns, st')"
  shows "extends st st' \<and> grids st' = grids st \<and>
         rows_filled st st' w (built_cell matrix) [0..<nat h] ns"
proof -
  let ?c = "\<lambda>j i. new_Node (int j) (int i) None :: 's Node"
  obtain ns1 st1 where fill1: "fill_rows fresh_cell w h st = Inr (ns1, st1)"
    and rest1: "(case matrix of None \<Rightarrow> Inr (ns1, st1)
       | Some m \<Rightarrow> thenE (size_differs m w h) (\<lambda>differs.
             if differs then Inl (Error ''Matrix size does not fit'')
             else thenE (mark_cells m ns1 w h st1) (\<lambda>st2. Inr (ns1, st2)))) = Inr (ns, st')"
    using run by (auto simp: buildNodes_def thenE_eq_Inr)
  have e: "ns1 = ns"
    using rest1 by (auto simp: thenE_eq_Inr split: option.splits if_splits)
  note fill = fill1 [unfolded e] and rest = rest1 [unfolded e]
  have F: "extends st st1" "grids st1 = grids st" "rows_filled st st1 w ?c [0..<nat h] ns"
    using fill_rows_Inr [of h w st fresh_cell ?c ns st1] fill by (simp_all add: fresh_cell_def)
  note R = rows_filled_upt [OF F(3)]
  show ?thesis
  proof (cases matrix)
    case None
    with rest have "st' = st1" by simp
    moreover have bc: "built_cell None j i = ?c j i" for j i
      by (simp add: built_cell_def cell_open_def new_Node_def)
    ultimately show ?thesis using F unfolding None rows_filled_def bc by simp
  next
    case (Some m)
    with rest have sz: "size_differs m w h = Inr False"
      and mark: "mark_cells m ns w h st1 = Inr st'"
      by (auto simp: thenE_eq_Inr split: if_splits)
    have len: "length m = nat h"
      using size_differs_False [OF sz] by simp
    let ?B = "blocked m ns (set [0..<nat h]) (set [0..<nat w])"
    obtain st2 where "foldE (\<lambda>i. foldE (\<lambda>j. mark_cell m ns i j) [0..<nat w]) [0..<nat h] st1 = Inr st2"
      and "marked st1 st2 ({} \<union> ?B)"
    proof -
      have "\<exists>st2. foldE (\<lambda>i. foldE (\<lambda>j. mark_cell m ns i j) [0..<nat w]) [0..<nat h] st1 = Inr st2 \<and>
                  marked st1 st2 ({} \<union> ?B)"
      proof (rule mark_rows)
        fix i j assume "i \<in> set [0..<nat h]" "j \<in> set [0..<nat w]"
        then show "i < length m \<and> i < length ns \<and> j < length (ns ! i) \<and> ns ! i ! j < length (objs st1)"
          using R len by simp
      qed (use R(1) len marked_refl in auto)
      then show ?thesis using that by blast
    qed
    with mark have M: "marked st1 st' ?B"
      by (simp add: mark_cells_def)
    have inj: "ns ! i ! j \<in> ?B \<longleftrightarrow> truthy (cell_value m i j)" if ij: "i < nat h" "j < nat w" for i j
    proof
      assume "ns ! i ! j \<in> ?B"
      then obtain i' j' where ij': "i' < nat h" "j' < nat w" "truthy (cell_value m i' j')"
        and eq: "ns ! i ! j = ns ! i' ! j'"
        by (auto simp: blocked_def)
      have "?c j i = ?c j' i'"
        using R(5) [OF ij] R(5) [OF ij'(1,2)] eq by simp
      then have "i = i'" "j = j'"
        by (simp_all add: new_Node_def)
      with ij' show "truthy (cell_value m i j)" by simp
    next
      assume "truthy (cell_value m i j)"
      with ij show "ns ! i ! j \<in> ?B" by (auto simp: blocked_def)
    qed
    have fresh: "a \<notin> ?B" if "a < length (objs st)" for a
      using that R(3) by (fastforce simp: blocked_def)
    have len1: "length (objs st') = length (objs st1)" "grids st' = grids st1"
      using M by (simp_all add: marked_def)
    have node: "the_node st' a = (if a \<in> ?B then (the_node st1 a)\<lparr>walkable := Flag False\<rparr> else the_node st1 a)"
      if "a < length (objs st1)" for a
      using M that by (simp add: marked_def)
    have "extends st st'"
      unfolding extends_def
    proof (intro conjI allI impI)
      show "length (objs st) \<le> length (objs st')"
        using len1 extends_length [OF F(1)] by simp
      fix a assume a: "a < length (objs st)"
      then have "a < length (objs st1)" using extends_length [OF F(1)] by simp
      then have "the_node st' a = the_node st1 a" using node fresh [OF a] by simp
      then show "the_node st' a = the_node st a" using extends_node [OF F(1) a] by simp
    qed
    moreover have "rows_filled st st' w (built_cell matrix) [0..<nat h] ns"
      unfolding rows_filled_def
    proof (intro conjI allI impI)
      show "length ns = length [0..<nat h]" using R(1) by simp
    next
      fix k assume "k < length [0..<nat h]"
      then show "length (ns ! k) = nat w" using R(2) by simp
    next
      fix k j assume k: "k < length [0..<nat h]" and j: "j < nat w"
      then have k': "k < nat h" by simp
      show "length (objs st) \<le> ns ! k ! j" using R(3) k' j by simp
      show "ns ! k ! j < length (objs st')" using R(4) k' j len1 by simp
      have "the_node st' (ns ! k ! j) =
            (if truthy (cell_value m k j) then (?c j k)\<lparr>walkable := Flag False\<rparr> else ?c j k)"
        using node [OF R(4) [OF k' j]] inj [OF k' j] R(5) [OF k' j] by simp
      then show "the_node st' (ns ! k ! j) = built_cell matrix j ([0..<nat h] ! k)"
        using k' Some by (simp add: built_cell_def cell_open_def new_Node_def)
    qed
    ultimately show ?thesis using len1 F(2) by simp
  qed
qed

lemma buildNodes_lengths:
  assumes "buildNodes w h matrix (st :: 's heap) = Inr (ns, st')"
  shows "new_Array h = Inr ()" and "0 < h \<Longrightarrow> new_Array w = Inr ()"
proof -
  obtain ns1 st1 where fill: "fill_rows fresh_cell w h st = Inr (ns1, (st1 :: 's heap))"
    using assms by (auto simp: buildNodes_def thenE_eq_Inr)
  then show h: "new_Array h = Inr ()"
    using new_Array_cases [of h] by (auto simp: fill_rows_def)
  show "new_Array w = Inr ()" if "0 < h"
  proof (rule ccontr)
    assume w: "new_Array w \<noteq> Inr ()"
    from that have "[0..<nat h] \<noteq> []" by simp
    from fill_rows_loop_RangeError [OF w this, of fresh_cell "[]" st] fill h
    show False by (simp add: fill_rows_def)
  qed
qed

lemma new_Grid_Inr:
  assumes run: "new_Grid w h matrix (st :: 's heap) = Inr (g, st')"
  shows "g = length (grids st)"
    and "extends st st'"
    and "\<exists>ns. grids st' = grids st @ [\<lparr>width = w, height = h, nodes = ns, iteration = 0\<rparr>] \<and>
              rows_filled st st' w (built_cell matrix) [0..<nat h] ns"
    and "new_Array h = Inr ()" and "0 < h \<Longrightarrow> new_Array w = Inr ()"
proof -
  obtain ns st1 where build: "buildNodes w h matrix st = Inr (ns, (st1 :: 's heap))"
    and alloc: "alloc_Grid \<lparr>width = w, height = h, nodes = ns, iteration = 0\<rparr> st1 = (g, st')"
    using run by (auto simp: new_Grid_def thenE_eq_Inr)
  note B = buildNodes_Inr [OF build]
  from alloc have st': "st' = st1\<lparr>grids := grids st1 @ [\<lparr>width = w, height = h, nodes = ns, iteration = 0\<rparr>]\<rparr>"
    and g: "g = length (grids st1)"
    by (auto simp: alloc_Grid_def)
  show "g = length (grids st)" using g B by simp
  show "extends st st'" using B st' by (simp add: extends_def the_node_def)
  have "rows_filled st st' w (built_cell matrix) [0..<nat h] ns"
    using B st' by (simp add: rows_filled_def the_node_def)
  then show "\<exists>ns. grids st' = grids st @ [\<lparr>width = w, height = h, nodes = ns, iteration = 0\<rparr>] \<and>
              rows_filled st st' w (built_cell matrix) [0..<nat h] ns"
    using st' B by auto
  show "new_Array h = Inr ()" using buildNodes_lengths(1) [OF build] .
  show "new_Array w = Inr ()" if "0 < h" using buildNodes_lengths(2) [OF build that] .
qed

lemma new_Grid_fields:
  assumes run: "new_Grid w h matrix (st :: 's heap) = Inr (g, st')"
  shows "width (the_grid st' g) = w" "height (the_grid st' g) = h" "iteration (the_grid st' g) = 0"
    and "g < length (grids st')"
    and "rows_filled st st' w (built_cell matrix) [0..<nat h] (nodes (the_grid st' g))"
    and "g0 < length (grids st) \<Longrightarrow> the_grid st' g0 = the_grid st g0"
proof -
  from new_Grid_Inr(3) [OF run] obtain ns where
    gr: "grids st' = grids st @ [\<lparr>width = w, height = h, nodes = ns, iteration = 0\<rparr>]"
    and R: "rows_filled st st' w (built_cell matrix) [0..<nat h] ns"
    by blast
  have g: "g = length (grids st)" using new_Grid_Inr(1) [OF run] .
  have tg: "the_grid st' g = \<lparr>width = w, height = h, nodes = ns, iteration = 0\<rparr>"
    by (simp add: the_grid_def gr g)
  show "width (the_grid st' g) = w" "height (the_grid st' g) = h" "iteration (the_grid st' g) = 0"
    by (simp_all add: tg)
  show "g < length (grids st')" by (simp add: gr g)
  show "rows_filled st st' w (built_cell matrix) [0..<nat h] (nodes (the_grid st' g))"
    using R by (simp add: tg)
  show "the_grid st' g0 = the_grid st g0" if "g0 < length (grids st)"
    using that by (simp add: the_grid_def gr nth_append)
qed

lemma built_cell_fields [simp]:
  "node_x (built_cell matrix j i) = int j"
  "node_y (built_cell matrix j i) = int i"
  "walkable (built_cell matrix j i) = Flag (cell_open matrix i j)"
  by (simp_all add: built_cell_def new_Node_def)

lemma new_Grid_ok:
  assumes run: "new_Grid w h matrix (st :: 's heap) = Inr (g, st')"
  shows "grid_ok st' g"
proof (rule grid_okI)
  note F = new_Grid_fields [OF run]
  show "g < length (grids st')" using F(4) .
  show "new_Array (height (the_grid st' g)) = Inr ()"
    using new_Grid_Inr(4) [OF run] F(2) by simp
  show "new_Array (width (the_grid st' g)) = Inr ()" if "0 < height (the_grid st' g)"
    using new_Grid_Inr(5) [OF run] F(1,2) that by simp
  show "rows_filled st st' (width (the_grid st' g)) (built_cell matrix)
          [0..<nat (height (the_grid st' g))] (nodes (the_grid st' g))"
    using F(5) F(1,2) by simp
  show "node_x (built_cell matrix j i :: 's Node) = int j \<and> node_y (built_cell matrix j i :: 's Node) = int i" for i j
    by simp
qed

lemma new_Grid_cell:
  assumes run: "new_Grid w h matrix (st :: 's heap) = Inr (g, st')"
    and inside: "isInside st' g x y"
  shows "the_node st' (cell_addr st' g x y) = built_cell matrix (nat x) (nat y)"
    and "length (objs st) \<le> cell_addr st' g x y"
proof -
  note F = new_Grid_fields [OF run]
  note R = rows_filled_upt [OF F(5)]
  from inside F(1,2) have "nat y < nat h" "nat x < nat w"
    by (auto simp: isInside_def)
  then show "the_node st' (cell_addr st' g x y) = built_cell matrix (nat x) (nat y)"
    and "length (objs st) \<le> cell_addr st' g x y"
    using R(5) [of "nat y" "nat x"] R(3) [of "nat y" "nat x"] by (simp_all add: cell_addr_def)
qed

lemma new_Grid_walkable:
  assumes run: "new_Grid w h matrix (st :: 's heap) = Inr (g, st')"
  shows "isWalkableAt st' g x y border = Inr (isInside st' g x y \<and> cell_open matrix (nat y) (nat x))"
proof -
  have "open_at st' g x y border \<longleftrightarrow> isInside st' g x y \<and> cell_open matrix (nat y) (nat x)"
    using new_Grid_cell(1) [OF run, of x y] by (auto simp: open_at_def)
  then show ?thesis
    using isWalkableAt_eq [OF new_Grid_ok [OF run]] by simp
qed

lemma new_Grid_None_open:
  assumes run: "new_Grid w h None (st :: 's heap) = Inr (g, st')"
  shows "open_at st' g x y b \<longleftrightarrow> 0 \<le> x \<and> x < w \<and> 0 \<le> y \<and> y < h"
proof -
  have "Inr (open_at st' g x y b) = (Inr (isInside st' g x y) :: error + bool)"
    using new_Grid_walkable [OF run, of x y b] isWalkableAt_eq [OF new_Grid_ok [OF run], of x y b]
    by (simp add: cell_open_def)
  then show ?thesis
    using new_Grid_fields(1,2) [OF run] by (auto simp: isInside_def)
qed

lemma new_Grid_None_total:
  assumes "new_Array h = Inr ()" and "0 < h \<Longrightarrow> new_Array w = Inr ()"
  shows "\<exists>g st'. new_Grid w h None (st :: 's heap) = Inr (g, st')"
proof -
  have "\<exists>ns st'. fill_rows fresh_cell w h st = Inr (ns, (st' :: 's heap))"
    by (rule fill_rows_total [where c = "\<lambda>j i. new_Node (int j) (int i) None"])
       (use assms in \<open>auto simp: fresh_cell_def\<close>)
  then show ?thesis
    by (auto simp: new_Grid_def buildNodes_def alloc_Grid_def)
qed

lemma matrix_at_inside:
  assumes run: "new_Grid w h (Some m) (st :: 's heap) = Inr (g, st')"
    and inside: "isInside st' g x y"
  shows "matrix_at m y x = Inr (cell_value m (nat y) (nat x))"
proof -
  obtain ns st1 where build: "buildNodes w h (Some m) st = Inr (ns, (st1 :: 's heap))"
    using run by (auto simp: new_Grid_def thenE_eq_Inr)
  then have "size_differs m w h = Inr False"
    by (auto simp: buildNodes_def thenE_eq_Inr split: if_splits)
  then have "int (length m) = h" by (rule size_differs_False)
  moreover from inside new_Grid_fields(1,2) [OF run] have "0 \<le> y" "y < h" "0 \<le> x"
    by (auto simp: isInside_def)
  ultimately show ?thesis
    using matrix_at_row [of "nat y" m "nat x"] by simp
qed

subsection \<open>The operations keep a grid well-formed\<close>

lemma the_grid_increment:
  "the_grid (increment st g) this =
     (if this = g \<and> g < length (grids st)
      then (the_grid st this)\<lparr>iteration := js_increment (iteration (the_grid st this))\<rparr>
      else the_grid st this)"
proof (cases "g < length (grids st)")
  case True
  then show ?thesis by (simp add: increment_def the_grid_def nth_list_update)
next
  case False
  then have "length (grids st) \<le> g" by simp
  then have "(grids st)[g := (the_grid st g)\<lparr>iteration := js_increment (iteration (the_grid st g))\<rparr>] = grids st"
    by (rule list_update_beyond)
  with False show ?thesis by (simp add: increment_def the_grid_def)
qed

lemma grid_ok_increment:
  assumes "grid_ok st this"
  shows "grid_ok (increment st g) this"
proof -
  have w: "width (the_grid (increment st g) this) = width (the_grid st this)"
    and h: "height (the_grid (increment st g) this) = height (the_grid st this)"
    and n: "nodes (the_grid (increment st g) this) = nodes (the_grid st this)"
    by (simp_all add: the_grid_increment)
  have o: "objs (increment st g) = objs st" and l: "length (grids (increment st g)) = length (grids st)"
    by (simp_all add: increment_def)
  show ?thesis
    using assms unfolding grid_ok_def w h n the_node_def o l .
qed

lemma grid_ok_new_Grid:
  assumes ok: "grid_ok st this" and run: "new_Grid w h matrix (st :: 's heap) = Inr (g, st')"
  shows "grid_ok st' this"
proof -
  note D = grid_ok_dims [OF ok]
  have "the_grid st' this = the_grid st this"
    using new_Grid_fields(6) [OF run D(3)] .
  moreover have "this < length (grids st')"
    using new_Grid_fields(4) [OF run] new_Grid_Inr(1) [OF run] D(3) by simp
  ultimately show ?thesis
    using grid_ok_extends [OF ok new_Grid_Inr(2) [OF run]] by blast
qed

lemma grid_ok_setWalkableAt:
  "grid_ok st this \<Longrightarrow> setWalkableAt st g x y v = Inr st' \<Longrightarrow> grid_ok st' this"
  by (auto simp: setWalkableAt_def thenE_eq_Inr grid_ok_set_walkable)

subsection \<open>Clone\<close>

lemma copied_cell_eq:
  assumes ok: "grid_ok st this" and ext: "extends st st'"
    and i: "i < nat (height (the_grid st this))" and j: "j < nat (width (the_grid st this))"
  shows "copied_cell (nodes (the_grid st this)) j i st' =
         Inr (new_Node (int j) (int i) (Some (walkable (the_node st (nodes (the_grid st this) ! i ! j)))))"
proof -
  note D = grid_ok_dims [OF ok]
  have "node_ref (nodes (the_grid st this)) (int i) (int j) = Inr (nodes (the_grid st this) ! i ! j)"
    using D(4) D(5) [OF i] i j by (intro node_ref_nat) simp_all
  moreover have "the_node st' (nodes (the_grid st this) ! i ! j) = the_node st (nodes (the_grid st this) ! i ! j)"
    using extends_node [OF ext D(6) [OF i j]] .
  ultimately show ?thesis by (simp add: copied_cell_def)
qed

lemma clone_Inr:
  assumes ok: "grid_ok (st :: 's heap) this"
  shows "\<exists>st'. clone st this = Inr (length (grids st), st') \<and>
           length (grids st') = Suc (length (grids st)) \<and>
           (\<forall>g0 < length (grids st). the_grid st' g0 = the_grid st g0) \<and>
           extends st st' \<and>
           width (the_grid st' (length (grids st))) = width (the_grid st this) \<and>
           height (the_grid st' (length (grids st))) = height (the_grid st this) \<and>
           iteration (the_grid st' (length (grids st))) = 0 \<and>
           rows_filled st st' (width (the_grid st this)) (cloned_cell st this)
             [0..<nat (height (the_grid st this))] (nodes (the_grid st' (length (grids st))))"
proof -
  let ?w = "width (the_grid st this)" and ?h = "height (the_grid st this)"
  let ?g = "length (grids st)"
  note D = grid_ok_dims [OF ok]
  obtain g st1 where run: "new_Grid ?w ?h None st = Inr (g, (st1 :: 's heap))"
    using new_Grid_None_total [OF D(1,2)] by blast
  have g: "g = ?g" using new_Grid_Inr(1) [OF run] .
  have ext1: "extends st st1" using new_Grid_Inr(2) [OF run] .
  note F = new_Grid_fields [OF run]
  have cell: "copied_cell (nodes (the_grid st this)) j i st' = Inr (cloned_cell st this j i)"
    if "i < nat ?h" "j < nat ?w" "extends st1 st'" for i j st'
    unfolding cloned_cell_def
    using that extends_trans [OF ext1] by (intro copied_cell_eq [OF ok]) auto
  obtain ns st2 where fill: "fill_rows (copied_cell (nodes (the_grid st this))) ?w ?h st1 = Inr (ns, st2)"
    using fill_rows_total [of ?h ?w st1 "copied_cell (nodes (the_grid st this))" "cloned_cell st this"]
      cell D(1,2) by blast
  have R: "extends st1 st2" "grids st2 = grids st1"
    "rows_filled st1 st2 ?w (cloned_cell st this) [0..<nat ?h] ns"
    using fill_rows_Inr [of ?h ?w st1 "copied_cell (nodes (the_grid st this))" "cloned_cell st this" ns st2]
      cell fill by blast+
  define st' where "st' = st2\<lparr>grids := (grids st2)[?g := (the_grid st2 ?g)\<lparr>nodes := ns\<rparr>]\<rparr>"
  have res: "clone st this = Inr (?g, st')"
    using run fill g by (simp add: clone_def Let_def st'_def)
  have lens2: "length (grids st2) = Suc ?g"
    using R(2) F(4) new_Grid_Inr(3) [OF run] by auto
  then have lens: "length (grids st') = Suc ?g"
    by (simp add: st'_def)
  have tg: "the_grid st' ?g = (the_grid st1 ?g)\<lparr>nodes := ns\<rparr>"
    using lens2 R(2) by (simp add: the_grid_def st'_def)
  have old: "\<forall>g0 < ?g. the_grid st' g0 = the_grid st g0"
    using F(6) g R(2) by (simp add: the_grid_def st'_def)
  have objs: "objs st' = objs st2"
    by (simp add: st'_def)
  have ext: "extends st st'"
    using extends_trans [OF ext1 R(1)] objs by (simp add: extends_def the_node_def)
  have filled: "rows_filled st st' ?w (cloned_cell st this) [0..<nat ?h] (nodes (the_grid st' ?g))"
  proof -
    note U = rows_filled_upt [OF R(3)]
    have "length (objs st) \<le> ns ! k ! j" if "k < nat ?h" "j < nat ?w" for k j
      using U(3) [OF that] extends_length [OF ext1] by simp
    then show ?thesis
      using U objs unfolding tg by (simp add: rows_filled_def the_node_def)
  qed
  have w: "width (the_grid st' ?g) = ?w" and h: "height (the_grid st' ?g) = ?h"
    and it: "iteration (the_grid st' ?g) = 0"
    using F(1,2,3) g unfolding tg by simp_all
  from res lens old ext w h it filled show ?thesis
    by (intro exI [of _ st'] conjI)
qed

lemma clone_facts:
  assumes ok: "grid_ok (st :: 's heap) this"
  obtains st' where "clone st this = Inr (length (grids st), st')"
    and "grid_ok st' (length (grids st))" and "grid_ok st' this"
    and "the_grid st' this = the_grid st this"
    and "extends st st'"
    and "width (the_grid st' (length (grids st))) = width (the_grid st this)"
    and "height (the_grid st' (length (grids st))) = height (the_grid st this)"
    and "iteration (the_grid st' (length (grids st))) = 0"
    and "\<And>x y. isInside st this x y \<Longrightarrow>
           length (objs st) \<le> cell_addr st' (length (grids st)) x y \<and>
           the_node st' (cell_addr st' (length (grids st)) x y) =
             new_Node x y (Some (walkable (the_node st (cell_addr st this x y))))"
proof -
  let ?g = "length (grids st)"
  from clone_Inr [OF ok] obtain st' where res: "clone st this = Inr (?g, st')"
    and len: "length (grids st') = Suc ?g"
    and old: "\<forall>g0 < ?g. the_grid st' g0 = the_grid st g0"
    and ext: "extends st st'"
    and w: "width (the_grid st' ?g) = width (the_grid st this)"
    and h: "height (the_grid st' ?g) = height (the_grid st this)"
    and it: "iteration (the_grid st' ?g) = 0"
    and filled: "rows_filled st st' (width (the_grid st this)) (cloned_cell st this)
             [0..<nat (height (the_grid st this))] (nodes (the_grid st' ?g))"
    by blast
  note D = grid_ok_dims [OF ok]
  have same: "the_grid st' this = the_grid st this"
    using old D(3) by simp
  have ok_this: "grid_ok st' this"
    using ok ext same by (rule grid_ok_extends) (use len D(3) in simp)
  have ok_new: "grid_ok st' ?g"
  proof (rule grid_okI [where c = "cloned_cell st this" and ?st0.0 = st])
    show "?g < length (grids st')" using len by simp
    show "new_Array (height (the_grid st' ?g)) = Inr ()" using D(1) h by simp
    show "new_Array (width (the_grid st' ?g)) = Inr ()" if "0 < height (the_grid st' ?g)"
      using D(2) that h w by simp
    show "rows_filled st st' (width (the_grid st' ?g)) (cloned_cell st this)
            [0..<nat (height (the_grid st' ?g))] (nodes (the_grid st' ?g))"
      using filled w h by simp
    show "node_x (cloned_cell st this j i) = int j \<and> node_y (cloned_cell st this j i) = int i" for i j
      by (simp add: cloned_cell_def new_Node_def)
  qed
  have cells: "length (objs st) \<le> cell_addr st' ?g x y \<and>
           the_node st' (cell_addr st' ?g x y) =
             new_Node x y (Some (walkable (the_node st (cell_addr st this x y))))"
    if "isInside st this x y" for x y
  proof -
    from that have xy: "0 \<le> x" "0 \<le> y" "nat y < nat (height (the_grid st this))"
      "nat x < nat (width (the_grid st this))"
      by (auto simp: isInside_def)
    note U = rows_filled_upt [OF filled]
    from U(3) [OF xy(3,4)] U(5) [OF xy(3,4)] xy(1,2) show ?thesis
      by (simp add: cell_addr_def cloned_cell_def)
  qed
  from res ok_new ok_this same ext w h it cells show ?thesis
    by (rule that)
qed


subsection \<open>An array length that is none\<close>

lemma fill_rows_RangeError:
  assumes "\<not> (0 \<le> h \<and> h < 2 ^ 32 \<and> (0 < h \<longrightarrow> 0 \<le> w \<and> w < 2 ^ 32))"
  shows "fill_rows cell w h st = Inl RangeError"
proof (cases "0 \<le> h \<and> h < 2 ^ 32")
  case False
  then have "new_Array h = Inl RangeError" by (simp add: new_Array_def)
  then show ?thesis by (simp add: fill_rows_def)
next
  case True
  with assms have h: "0 < h" and w: "new_Array w \<noteq> Inr ()"
    by (auto simp: new_Array_def)
  from h have "[0..<nat h] \<noteq> []" by simp
  from fill_rows_loop_RangeError [OF w this] True show ?thesis
    by (simp add: fill_rows_def new_Array_def)
qed

subsection \<open>Reading what \<open>setWalkableAt\<close> wrote\<close>

lemma cell_addr_inj:
  assumes ok: "grid_ok st this" and a: "isInside st this x y" and b: "isInside st this x' y'"
    and eq: "cell_addr st this x' y' = cell_addr st this x y"
  shows "x' = x \<and> y' = y"
  using grid_ok_cell(2,3) [OF ok a] grid_ok_cell(2,3) [OF ok b] eq by simp

lemma setWalkableAt_read:
  assumes ok: "grid_ok st this" and set: "setWalkableAt st this x y v = Inr st'"
  shows "isWalkableAt st' this x' y' b =
           (if x' = x \<and> y' = y then Inr (case v of Tag t \<Rightarrow> Some t \<noteq> b | Flag a \<Rightarrow> a)
            else isWalkableAt st this x' y' b)"
proof -
  note inside = setWalkableAt_Inr(1) [OF ok set]
  note st' = setWalkableAt_Inr(2) [OF ok set]
  have ok': "grid_ok st' this" using ok set by (rule grid_ok_setWalkableAt)
  have lt: "cell_addr st this x y < length (objs st)" by (rule grid_ok_cell(1) [OF ok inside])
  have in_eq: "isInside st' this p q = isInside st this p q" for p q
    by (simp add: st' isInside_def)
  have addr: "cell_addr st' this p q = cell_addr st this p q" for p q
    by (simp add: st' cell_addr_def)
  show ?thesis
  proof (cases "x' = x \<and> y' = y")
    case True
    have "the_node st' (cell_addr st this x y) = (the_node st (cell_addr st this x y))\<lparr>walkable := v\<rparr>"
      using lt by (simp add: st' the_node_set_walkable)
    with True inside show ?thesis
      by (simp add: isWalkableAt_eq [OF ok'] open_at_def in_eq addr)
  next
    case False
    show ?thesis
    proof (cases "isInside st this x' y'")
      case True
      with False cell_addr_inj [OF ok inside True]
      have "cell_addr st this x' y' \<noteq> cell_addr st this x y" by blast
      then have "the_node st' (cell_addr st this x' y') = the_node st (cell_addr st this x' y')"
        by (simp add: st' the_node_set_walkable_other)
      then show ?thesis
        unfolding if_not_P [OF False]
        by (simp add: isWalkableAt_eq [OF ok'] isWalkableAt_eq [OF ok] open_at_def in_eq addr)
    next
      case out: False
      then show ?thesis
        unfolding if_not_P [OF False]
        by (simp add: isWalkableAt_eq [OF ok'] isWalkableAt_eq [OF ok] open_at_def in_eq)
    qed
  qed
qed

lemma setWalkableAt_inside:
  assumes ok: "grid_ok st this" and inside: "isInside st this x y"
  shows "setWalkableAt st this x y v = Inr (set_walkable (cell_addr st this x y) v st)"
  by (simp add: setWalkableAt_def node_ref_inside [OF ok inside])

subsection \<open>The iteration counter\<close>

lemma js_increment_mono: "n \<le> js_increment n"
  by (simp add: js_increment_def)

lemma js_increment_below: "n < 2 ^ 53 \<Longrightarrow> js_increment n = n + 1"
  by (simp add: js_increment_def)

lemma increments_below:
  assumes "this < length (grids st)" and "iteration (the_grid st this) = 0" and "n \<le> 2 ^ 53"
  shows "increments n st this =
           st\<lparr>grids := (grids st)[this := (the_grid st this)\<lparr>iteration := n\<rparr>]\<rparr>"
  using assms(3)
proof (induction n)
  case 0
  have "(the_grid st this)\<lparr>iteration := 0\<rparr> = the_grid st this"
    using assms(2) by simp
  then show ?case by (simp add: the_grid_def)
next
  case (Suc n)
  then have n: "n < 2 ^ 53" and ih: "increments n st this =
           st\<lparr>grids := (grids st)[this := (the_grid st this)\<lparr>iteration := n\<rparr>]\<rparr>"
    by simp_all
  show ?case
    using assms(1) n by (simp add: ih increment_def the_grid_def js_increment_below)
qed

lemma call_frame:
  assumes ok: "grid_ok (st :: 's heap) g" and lt: "this < length (grids st)"
    and run: "call c g st = Inr (r, st')"
  shows "the_grid st' this =
           (if c = Increment \<and> g = this
            then (the_grid st this)\<lparr>iteration := js_increment (iteration (the_grid st this))\<rparr>
            else the_grid st this)"
proof (cases c)
  case (IsInside x y)
  with run show ?thesis by simp
next
  case (IsWalkableAt x y border)
  with run show ?thesis by (auto simp: thenE_eq_Inr)
next
  case (GetNodeAt x y)
  with run show ?thesis by (auto simp: thenE_eq_Inr)
next
  case (SetWalkableAt x y v)
  with run have "setWalkableAt st g x y v = Inr st'" by (auto simp: thenE_eq_Inr)
  then have "grids st' = grids st" by (auto simp: setWalkableAt_def thenE_eq_Inr)
  with SetWalkableAt show ?thesis by (simp add: the_grid_def)
next
  case (GetNeighbors node ad dcc)
  with run show ?thesis by (auto simp: thenE_eq_Inr)
next
  case Clone
  from clone_Inr [OF ok] obtain st2 where c: "clone st g = Inr (length (grids st), st2)"
    and same: "\<forall>g0 < length (grids st). the_grid st2 g0 = the_grid st g0"
    by blast
  from run Clone c have "st' = st2" by simp
  with same lt Clone show ?thesis by simp
next
  case Increment
  with run have "st' = increment st g" by simp
  with Increment lt show ?thesis by (auto simp: the_grid_increment)
qed


section \<open>The claims\<close>

subsection \<open>C1: orthogonal neighbors and the order of the result\<close>

text \<open>
  Claim C1. On a well-formed grid, from a node inside it, \<open>getNeighbors\<close> returns the
  snapshots of nodes of the grid whose coordinates are, in this order: the cell above when
  it is walkable for the border \<open>bottom\<close> and the origin is for \<open>top\<close>; the cell to the
  right when it is walkable for \<open>left\<close> and the origin is for \<open>right\<close>; the cell below
  when it is walkable for \<open>top\<close> and the origin is for \<open>bottom\<close>; the cell to the left
  when it is walkable for \<open>right\<close> and the origin is for \<open>left\<close>; then a subsequence of
  up-left, up-right, down-right, down-left, which is empty when diagonals are not asked
  for. A direction left out is absent. On the grid of width 4 and height 4 without obstacles,
  the neighbors of the node \<open>(1, 1)\<close> with diagonals and corner crossing allowed are all
  eight, in this order.
\<close>

theorem getNeighbors_orthogonal:
  "(grid_ok st this \<longrightarrow> isInside st this x y \<longrightarrow> node_x node = x \<longrightarrow> node_y node = y \<longrightarrow>
      (\<exists>ns ds. getNeighbors st this node ad dcc = Inr ns \<and>
         map pos ns =
           (if walks st this x (y - 1) ''bottom'' \<and> walks st this x y ''top'' then [(x, y - 1)] else []) @
           (if walks st this (x + 1) y ''left'' \<and> walks st this x y ''right'' then [(x + 1, y)] else []) @
           (if walks st this x (y + 1) ''top'' \<and> walks st this x y ''bottom'' then [(x, y + 1)] else []) @
           (if walks st this (x - 1) y ''right'' \<and> walks st this x y ''left'' then [(x - 1, y)] else []) @
           ds \<and>
         subseq ds [(x - 1, y - 1), (x + 1, y - 1), (x + 1, y + 1), (x - 1, y + 1)] \<and>
         (\<not> ad \<longrightarrow> ds = []) \<and>
         (\<forall>n \<in> set ns. getNodeAt st this (node_x n) (node_y n) = Inr n))) \<and>
   (new_Grid 4 4 None st0 = Inr (g, st1) \<longrightarrow> getNodeAt st1 g 1 1 = Inr n11 \<longrightarrow>
      (\<exists>ns. getNeighbors st1 g n11 True False = Inr ns \<and>
            map pos ns = [(1, 0), (2, 1), (1, 2), (0, 1), (0, 0), (2, 0), (2, 2), (0, 2)]))"
proof (intro conjI impI)
  assume ok: "grid_ok st this" and xy: "node_x node = x" "node_y node = y"
  from getNeighbors_pos [OF ok, of node ad dcc] xy obtain ns where
    ns: "getNeighbors st this node ad dcc = Inr ns"
    and coords: "map pos ns = neighbor_coords st this x y ad dcc"
    and nodes: "\<forall>n \<in> set ns. getNodeAt st this (node_x n) (node_y n) = Inr n"
    by auto
  let ?ds = "if ad then diagonal_coords st this x y dcc else []"
  have ds: "neighbor_coords st this x y ad dcc =
           pick (walks st this x (y - 1) ''bottom'' \<and> walks st this x y ''top'') (x, y - 1) @
           pick (walks st this (x + 1) y ''left'' \<and> walks st this x y ''right'') (x + 1, y) @
           pick (walks st this x (y + 1) ''top'' \<and> walks st this x y ''bottom'') (x, y + 1) @
           pick (walks st this (x - 1) y ''right'' \<and> walks st this x y ''left'') (x - 1, y) @ ?ds"
    unfolding walks_open [OF ok] by (rule neighbor_coords_unfold)
  have sub: "subseq ?ds [(x - 1, y - 1), (x + 1, y - 1), (x + 1, y + 1), (x - 1, y + 1)]"
    using subseq_diagonal_coords [of st this x y dcc] by simp
  have nodiag: "\<not> ad \<longrightarrow> ?ds = []"
    by simp
  show "\<exists>ns ds. getNeighbors st this node ad dcc = Inr ns \<and>
         map pos ns =
           (if walks st this x (y - 1) ''bottom'' \<and> walks st this x y ''top'' then [(x, y - 1)] else []) @
           (if walks st this (x + 1) y ''left'' \<and> walks st this x y ''right'' then [(x + 1, y)] else []) @
           (if walks st this x (y + 1) ''top'' \<and> walks st this x y ''bottom'' then [(x, y + 1)] else []) @
           (if walks st this (x - 1) y ''right'' \<and> walks st this x y ''left'' then [(x - 1, y)] else []) @
           ds \<and>
         subseq ds [(x - 1, y - 1), (x + 1, y - 1), (x + 1, y + 1), (x - 1, y + 1)] \<and>
         (\<not> ad \<longrightarrow> ds = []) \<and>
         (\<forall>n \<in> set ns. getNodeAt st this (node_x n) (node_y n) = Inr n)"
    using ns coords [unfolded ds pick_if] nodes sub nodiag
    by (intro exI [of _ ns] exI [of _ ?ds] conjI)
next
  assume run: "new_Grid 4 4 None st0 = Inr (g, st1)" and n11: "getNodeAt st1 g 1 1 = Inr n11"
  have ok: "grid_ok st1 g" using new_Grid_ok [OF run] .
  have inside: "isInside st1 g 1 1"
    using new_Grid_fields(1,2) [OF run] by (simp add: isInside_def)
  have "pos n11 = (1, 1)"
    using getNodeAt_inside [OF ok inside] n11 pos_snapshot [OF ok inside] by simp
  then have xy: "node_x n11 = 1" "node_y n11 = 1"
    by (simp_all add: pos_def)
  have "neighbor_coords st1 g 1 1 True False =
        [(1, 0), (2, 1), (1, 2), (0, 1), (0, 0), (2, 0), (2, 2), (0, 2)]"
    unfolding neighbor_coords_unfold diagonal_coords_def Let_def new_Grid_None_open [OF run]
    by (simp add: pick_def)
  then show "\<exists>ns. getNeighbors st1 g n11 True False = Inr ns \<and>
            map pos ns = [(1, 0), (2, 1), (1, 2), (0, 1), (0, 0), (2, 0), (2, 2), (0, 2)]"
    using getNeighbors_pos [OF ok, of n11 True False] xy by auto
qed

text \<open>
  The theorem on the grid of width 2 and height 2 whose node \<open>(0, 0)\<close> has the tag
  \<open>right\<close>, from \<open>(0, 0)\<close> without diagonals: the cell below is the only neighbor, the
  tag closes the way to the right. And on the grid of width 4 and height 4, from \<open>(1, 1)\<close>.
\<close>

theorem getNeighbors_orthogonal_witness:
  "grid_ok grid2 0 \<and> isInside grid2 0 0 0 \<and>
   (\<exists>ns. getNeighbors grid2 0 (new_Node 0 0 (Some (Tag ''right''))) False False = Inr ns \<and>
         map pos ns = [(0, 1)]) \<and>
   new_Grid 4 4 None empty_heap = Inr (0, grid4) \<and>
   getNodeAt grid4 0 1 1 = Inr (new_Node 1 1 None) \<and>
   (\<exists>ns. getNeighbors grid4 0 (new_Node 1 1 None) True False = Inr ns \<and>
         map pos ns = [(1, 0), (2, 1), (1, 2), (0, 1), (0, 0), (2, 0), (2, 2), (0, 2)])"
proof -
  let ?n = "new_Node 0 0 (Some (Tag ''right'')) :: unit Node"
  have ok: "grid_ok grid2 0" by code_simp
  have inside: "isInside grid2 0 0 0" by code_simp
  have xy: "node_x ?n = 0" "node_y ?n = 0" by (simp_all add: new_Node_def)
  have w: "\<not> walks grid2 0 0 (0 - 1) ''bottom''" "\<not> walks grid2 0 0 0 ''right''"
    "walks grid2 0 0 (0 + 1) ''top''" "walks grid2 0 0 0 ''bottom''"
    "\<not> walks grid2 0 (0 - 1) 0 ''right''"
    by code_simp+
  have run: "new_Grid 4 4 None empty_heap = Inr (0, grid4)" by code_simp
  have n11: "getNodeAt grid4 0 1 1 = Inr (new_Node 1 1 None)" by code_simp
  note inst = getNeighbors_orthogonal [of grid2 0 0 0 ?n False False empty_heap 0 grid4 "new_Node 1 1 None"]
  from inst ok inside xy obtain ns ds where
    "getNeighbors grid2 0 ?n False False = Inr ns"
    and "map pos ns =
           (if walks grid2 0 0 (0 - 1) ''bottom'' \<and> walks grid2 0 0 0 ''top'' then [(0, 0 - 1)] else []) @
           (if walks grid2 0 (0 + 1) 0 ''left'' \<and> walks grid2 0 0 0 ''right'' then [(0 + 1, 0)] else []) @
           (if walks grid2 0 0 (0 + 1) ''top'' \<and> walks grid2 0 0 0 ''bottom'' then [(0, 0 + 1)] else []) @
           (if walks grid2 0 (0 - 1) 0 ''right'' \<and> walks grid2 0 0 0 ''left'' then [(0 - 1, 0)] else []) @
           ds"
    and "\<not> False \<longrightarrow> ds = []"
    by blast
  then have "\<exists>ns. getNeighbors grid2 0 ?n False False = Inr ns \<and> map pos ns = [(0, 1)]"
    using w by simp
  moreover from inst run n11
  have "\<exists>ns. getNeighbors grid4 0 (new_Node 1 1 None) True False = Inr ns \<and>
         map pos ns = [(1, 0), (2, 1), (1, 2), (0, 1), (0, 0), (2, 0), (2, 2), (0, 2)]"
    by blast
  ultimately show ?thesis using ok inside run n11 by blast
qed

subsection \<open>C2: eligibility of a diagonal\<close>

text \<open>
  Claim C2. On a well-formed grid and with diagonals asked for, a diagonal neighbor is
  returned exactly when it is eligible and its four checks pass, where eligible means:
  with \<open>dontCrossCorners\<close>, both orthogonal neighbors that frame it are returned
  (up-left: left and up; up-right: up and right; down-right: right and down; down-left:
  down and left); without it, at least one of the two is.
\<close>

theorem diagonal_eligibility:
  assumes "grid_ok st this" and "node_x node = x" and "node_y node = y"
  shows "\<exists>ns. getNeighbors st this node True dcc = Inr ns \<and>
     ((x - 1, y - 1) \<in> set (map pos ns) \<longleftrightarrow>
        (if dcc then (x - 1, y) \<in> set (map pos ns) \<and> (x, y - 1) \<in> set (map pos ns)
         else (x - 1, y) \<in> set (map pos ns) \<or> (x, y - 1) \<in> set (map pos ns)) \<and>
        walks st this (x - 1) (y - 1) ''bottom'' \<and> walks st this (x - 1) y ''top'' \<and>
        walks st this (x - 1) (y - 1) ''right'' \<and> walks st this x (y - 1) ''left'') \<and>
     ((x + 1, y - 1) \<in> set (map pos ns) \<longleftrightarrow>
        (if dcc then (x, y - 1) \<in> set (map pos ns) \<and> (x + 1, y) \<in> set (map pos ns)
         else (x, y - 1) \<in> set (map pos ns) \<or> (x + 1, y) \<in> set (map pos ns)) \<and>
        walks st this (x + 1) (y - 1) ''bottom'' \<and> walks st this (x + 1) y ''top'' \<and>
        walks st this (x + 1) (y - 1) ''left'' \<and> walks st this x (y - 1) ''right'') \<and>
     ((x + 1, y + 1) \<in> set (map pos ns) \<longleftrightarrow>
        (if dcc then (x + 1, y) \<in> set (map pos ns) \<and> (x, y + 1) \<in> set (map pos ns)
         else (x + 1, y) \<in> set (map pos ns) \<or> (x, y + 1) \<in> set (map pos ns)) \<and>
        walks st this (x + 1) (y + 1) ''top'' \<and> walks st this (x + 1) y ''bottom'' \<and>
        walks st this (x + 1) (y + 1) ''left'' \<and> walks st this x (y + 1) ''right'') \<and>
     ((x - 1, y + 1) \<in> set (map pos ns) \<longleftrightarrow>
        (if dcc then (x, y + 1) \<in> set (map pos ns) \<and> (x - 1, y) \<in> set (map pos ns)
         else (x, y + 1) \<in> set (map pos ns) \<or> (x - 1, y) \<in> set (map pos ns)) \<and>
        walks st this (x - 1) (y + 1) ''top'' \<and> walks st this (x - 1) y ''bottom'' \<and>
        walks st this (x - 1) (y + 1) ''right'' \<and> walks st this x (y + 1) ''left'')"
proof -
  from getNeighbors_pos [OF assms(1), of node True dcc] assms(2,3) obtain ns where
    ns: "getNeighbors st this node True dcc = Inr ns"
    and coords: "map pos ns = neighbor_coords st this x y True dcc"
    by auto
  show ?thesis
  proof (intro exI [of _ ns] conjI)
    show "getNeighbors st this node True dcc = Inr ns" by (rule ns)
  qed (unfold coords walks_open [OF assms(1)], (rule neighbor_coords_diag)+)
qed

text \<open>
  The theorem on the grid of width 2 and height 2 whose node \<open>(0, 0)\<close> has the tag
  \<open>right\<close>, from \<open>(0, 0)\<close>: the move down succeeds and the move right does not, so the
  node down-right is returned without \<open>dontCrossCorners\<close> and is not with it.
\<close>

theorem diagonal_eligibility_witness:
  "grid_ok grid2 0 \<and>
   (\<exists>ns. getNeighbors grid2 0 (new_Node 0 0 (Some (Tag ''right''))) True False = Inr ns \<and>
         map pos ns = [(0, 1), (1, 1)]) \<and>
   (\<exists>ns. getNeighbors grid2 0 (new_Node 0 0 (Some (Tag ''right''))) True True = Inr ns \<and>
         map pos ns = [(0, 1)])"
proof -
  let ?n = "new_Node 0 0 (Some (Tag ''right'')) :: unit Node"
  have ok: "grid_ok grid2 0" by code_simp
  have xy: "node_x ?n = 0" "node_y ?n = 0" by (simp_all add: new_Node_def)
  from diagonal_eligibility [OF ok xy, of False] obtain ns where
    ns: "getNeighbors grid2 0 ?n True False = Inr ns" by blast
  from diagonal_eligibility [OF ok xy, of True] obtain ns' where
    ns': "getNeighbors grid2 0 ?n True True = Inr ns'" by blast
  have "map pos (projr (getNeighbors grid2 0 ?n True False)) = [(0, 1), (1, 1)]"
    and "map pos (projr (getNeighbors grid2 0 ?n True True)) = [(0, 1)]"
    by code_simp+
  with ns ns' ok show ?thesis by simp
qed

subsection \<open>C3: the four checks of a diagonal\<close>

text \<open>
  Claim C3. On a well-formed grid and with diagonals asked for, an eligible diagonal
  neighbor is returned exactly when four checks pass, which are the checks of the two
  orthogonal moves from the flanking cells into the target: the target is walkable for
  the border facing each flanking cell, and each flanking cell is walkable for the
  border facing the target. For up-left: the target for \<open>bottom\<close> and the left cell for
  \<open>top\<close>, the target for \<open>right\<close> and the upper cell for \<open>left\<close>.
\<close>

theorem diagonal_checks:
  assumes "grid_ok st this" and "node_x node = x" and "node_y node = y"
  shows "\<exists>ns. getNeighbors st this node True dcc = Inr ns \<and>
     ((if dcc then (x - 1, y) \<in> set (map pos ns) \<and> (x, y - 1) \<in> set (map pos ns)
       else (x - 1, y) \<in> set (map pos ns) \<or> (x, y - 1) \<in> set (map pos ns)) \<longrightarrow>
      ((x - 1, y - 1) \<in> set (map pos ns) \<longleftrightarrow>
         walks st this (x - 1) (y - 1) ''bottom'' \<and> walks st this (x - 1) y ''top'' \<and>
         walks st this (x - 1) (y - 1) ''right'' \<and> walks st this x (y - 1) ''left'')) \<and>
     ((if dcc then (x, y - 1) \<in> set (map pos ns) \<and> (x + 1, y) \<in> set (map pos ns)
       else (x, y - 1) \<in> set (map pos ns) \<or> (x + 1, y) \<in> set (map pos ns)) \<longrightarrow>
      ((x + 1, y - 1) \<in> set (map pos ns) \<longleftrightarrow>
         walks st this (x + 1) (y - 1) ''bottom'' \<and> walks st this (x + 1) y ''top'' \<and>
         walks st this (x + 1) (y - 1) ''left'' \<and> walks st this x (y - 1) ''right'')) \<and>
     ((if dcc then (x + 1, y) \<in> set (map pos ns) \<and> (x, y + 1) \<in> set (map pos ns)
       else (x + 1, y) \<in> set (map pos ns) \<or> (x, y + 1) \<in> set (map pos ns)) \<longrightarrow>
      ((x + 1, y + 1) \<in> set (map pos ns) \<longleftrightarrow>
         walks st this (x + 1) (y + 1) ''top'' \<and> walks st this (x + 1) y ''bottom'' \<and>
         walks st this (x + 1) (y + 1) ''left'' \<and> walks st this x (y + 1) ''right'')) \<and>
     ((if dcc then (x, y + 1) \<in> set (map pos ns) \<and> (x - 1, y) \<in> set (map pos ns)
       else (x, y + 1) \<in> set (map pos ns) \<or> (x - 1, y) \<in> set (map pos ns)) \<longrightarrow>
      ((x - 1, y + 1) \<in> set (map pos ns) \<longleftrightarrow>
         walks st this (x - 1) (y + 1) ''top'' \<and> walks st this (x - 1) y ''bottom'' \<and>
         walks st this (x - 1) (y + 1) ''right'' \<and> walks st this x (y + 1) ''left''))"
proof -
  from getNeighbors_pos [OF assms(1), of node True dcc] assms(2,3) obtain ns where
    ns: "getNeighbors st this node True dcc = Inr ns"
    and coords: "map pos ns = neighbor_coords st this x y True dcc"
    by auto
  show ?thesis
  proof (intro exI [of _ ns] conjI)
    show "getNeighbors st this node True dcc = Inr ns" by (rule ns)
  qed (unfold coords walks_open [OF assms(1)], (rule iff_conjD, rule neighbor_coords_diag)+)
qed

text \<open>
  The theorem on the same grid, from \<open>(0, 0)\<close> without \<open>dontCrossCorners\<close>: the diagonal
  down-right is eligible, its four checks pass and it is returned.
\<close>

theorem diagonal_checks_witness:
  "grid_ok grid2 0 \<and>
   walks grid2 0 1 1 ''top'' \<and> walks grid2 0 1 0 ''bottom'' \<and>
   walks grid2 0 1 1 ''left'' \<and> walks grid2 0 0 1 ''right'' \<and>
   (\<exists>ns. getNeighbors grid2 0 (new_Node 0 0 (Some (Tag ''right''))) True False = Inr ns \<and>
         (0, 1) \<in> set (map pos ns) \<and> (1, 1) \<in> set (map pos ns))"
proof -
  let ?n = "new_Node 0 0 (Some (Tag ''right'')) :: unit Node"
  have ok: "grid_ok grid2 0" by code_simp
  have xy: "node_x ?n = 0" "node_y ?n = 0" by (simp_all add: new_Node_def)
  have w: "walks grid2 0 (0 + 1) (0 + 1) ''top''" "walks grid2 0 (0 + 1) 0 ''bottom''"
    "walks grid2 0 (0 + 1) (0 + 1) ''left''" "walks grid2 0 0 (0 + 1) ''right''"
    by code_simp+
  from diagonal_checks [OF ok xy, of False] obtain ns where
    ns: "getNeighbors grid2 0 ?n True False = Inr ns"
    and dr0: "(if False then (0 + 1, 0) \<in> set (map pos ns) \<and> (0, 0 + 1) \<in> set (map pos ns)
       else (0 + 1, 0) \<in> set (map pos ns) \<or> (0, 0 + 1) \<in> set (map pos ns)) \<longrightarrow>
      ((0 + 1, 0 + 1) \<in> set (map pos ns) \<longleftrightarrow>
         walks grid2 0 (0 + 1) (0 + 1) ''top'' \<and> walks grid2 0 (0 + 1) 0 ''bottom'' \<and>
         walks grid2 0 (0 + 1) (0 + 1) ''left'' \<and> walks grid2 0 0 (0 + 1) ''right'')"
    by (elim exE conjE) (rule that, assumption+)
  from dr0 have dr: "(0 + 1, 0) \<in> set (map pos ns) \<or> (0, 0 + 1) \<in> set (map pos ns) \<longrightarrow>
      ((0 + 1, 0 + 1) \<in> set (map pos ns) \<longleftrightarrow>
         walks grid2 0 (0 + 1) (0 + 1) ''top'' \<and> walks grid2 0 (0 + 1) 0 ''bottom'' \<and>
         walks grid2 0 (0 + 1) (0 + 1) ''left'' \<and> walks grid2 0 0 (0 + 1) ''right'')"
    by (simp only: if_False)
  have "(0, 1) \<in> set (map pos (projr (getNeighbors grid2 0 ?n True False)))"
    by code_simp
  with ns have down: "(0, 0 + 1) \<in> set (map pos ns)" by simp
  with dr w have "(0 + 1, 0 + 1) \<in> set (map pos ns)" by blast
  with ns down have "\<exists>ns. getNeighbors grid2 0 ?n True False = Inr ns \<and>
         (0, 1) \<in> set (map pos ns) \<and> (1, 1) \<in> set (map pos ns)"
    by (intro exI [of _ ns]) simp
  with ok w show ?thesis by simp
qed

subsection \<open>C4: the size of the matrix\<close>

text \<open>
  Claim C4 as stated fails: for a grid of width 2 and height 2, the matrix
  \<open>[[0, 0], [0, 0, 1]]\<close> does not have 2 columns in every row, and the constructor returns
  a grid. The third cell of the second row is not read, and all four nodes are walkable.
\<close>

theorem ragged_matrix_accepted:
  "new_Grid 2 2 (Some [[Number 0, Number 0], [Number 0, Number 0, Number 1]]) (empty_heap :: unit heap) =
     Inr (0, \<lparr>grids = [\<lparr>width = 2, height = 2, nodes = [[0, 1], [2, 3]], iteration = 0\<rparr>],
              objs = [new_Node 0 0 None, new_Node 1 0 None, new_Node 0 1 None, new_Node 1 1 None]\<rparr>)"
  by code_simp

text \<open>
  Claim C4, as amended. \<open>_buildNodes\<close> compares the number of rows with \<open>height\<close> and the
  length of the first row with \<open>width\<close>, and no other row. When one of the two differs the
  constructor raises and returns no grid. The nodes are allocated before the test: when
  \<open>height\<close> is not an array length, or \<open>height\<close> is positive and \<open>width\<close> is not an array
  length, the allocation has raised a RangeError; in every other case the exception is the
  Error \<open>Matrix size does not fit\<close>.
\<close>

theorem shape_mismatch_first_row:
  assumes "int (length m) \<noteq> h \<or> (m \<noteq> [] \<and> int (length (hd m)) \<noteq> w)"
  shows "new_Grid w h (Some m) st =
           Inl (if 0 \<le> h \<and> h < 2 ^ 32 \<and> (0 < h \<longrightarrow> 0 \<le> w \<and> w < 2 ^ 32)
                then Error ''Matrix size does not fit'' else RangeError)"
proof (cases "0 \<le> h \<and> h < 2 ^ 32 \<and> (0 < h \<longrightarrow> 0 \<le> w \<and> w < 2 ^ 32)")
  case True
  have "\<exists>ns st'. fill_rows fresh_cell w h st = Inr (ns, st')"
    by (rule fill_rows_total [where c = "\<lambda>j i. new_Node (int j) (int i) None"])
       (use True in \<open>auto simp: fresh_cell_def new_Array_def\<close>)
  then obtain ns st' where "fill_rows fresh_cell w h st = Inr (ns, st')" by blast
  then have "new_Grid w h (Some m) st = Inl (Error ''Matrix size does not fit'')"
    using size_differs_True [OF assms] by (simp add: new_Grid_def buildNodes_def)
  with True show ?thesis by simp
next
  case False
  then have "fill_rows fresh_cell w h st = Inl RangeError" by (rule fill_rows_RangeError)
  then have "new_Grid w h (Some m) st = Inl RangeError"
    by (simp add: new_Grid_def buildNodes_def)
  with False show ?thesis by simp
qed

text \<open>
  The theorem at a matrix of two rows of three cells, for a grid of width 2 and height 2;
  at a matrix of one row, for a grid of width -1 and height 0, which allocates no row; and
  at a matrix of one row of two cells, for a grid of width -1 and height 1 and for a grid of
  width 2 and height -1.
\<close>

theorem shape_mismatch_first_row_witness:
  "int (length [[Number 0, Number 0, Number 1], [Number 0, Number 0, Number 0]]) = 2 \<and>
   int (length (hd [[Number 0, Number 0, Number 1], [Number 0, Number 0, Number 0]])) = 3 \<and>
   new_Grid 2 2 (Some [[Number 0, Number 0, Number 1], [Number 0, Number 0, Number 0]])
     (empty_heap :: unit heap) = Inl (Error ''Matrix size does not fit'') \<and>
   new_Grid (- 1) 0 (Some [[Number 0]]) (empty_heap :: unit heap) =
     Inl (Error ''Matrix size does not fit'') \<and>
   new_Grid (- 1) 1 (Some [[Number 0, Number 0]]) (empty_heap :: unit heap) = Inl RangeError \<and>
   new_Grid 2 (- 1) (Some [[Number 0, Number 0]]) (empty_heap :: unit heap) = Inl RangeError"
  using shape_mismatch_first_row [of "[[Number 0, Number 0, Number 1], [Number 0, Number 0, Number 0]]" 2 2
          "empty_heap :: unit heap"]
    shape_mismatch_first_row [of "[[Number 0]]" 0 "- 1" "empty_heap :: unit heap"]
    shape_mismatch_first_row [of "[[Number 0, Number 0]]" 1 "- 1" "empty_heap :: unit heap"]
    shape_mismatch_first_row [of "[[Number 0, Number 0]]" "- 1" 2 "empty_heap :: unit heap"]
  by simp

subsection \<open>C5: matrix values and walkability\<close>

text \<open>
  Claim C5. When the constructor returns a grid for a matrix, a cell \<open>(x, y)\<close> of the grid
  is walkable exactly when \<open>matrix[y][x]\<close> is falsy, whatever the border asked for; this
  covers a cell the row does not have, which reads as \<open>undefined\<close>. Without a matrix every
  cell is walkable. In particular, when the matrix holds \<open>1\<close> at row \<open>r\<close>, column \<open>c\<close> and
  \<open>0\<close> at every other cell of the grid, \<open>isWalkableAt(c, r)\<close> is false and \<open>isWalkableAt\<close>
  is true at every other cell inside.
\<close>

theorem matrix_inversion:
  "(new_Grid w h (Some m) (st :: 's heap) = Inr (g, st') \<longrightarrow> isInside st' g x y \<longrightarrow>
      (\<exists>v. matrix_at m y x = Inr v \<and> isWalkableAt st' g x y border = Inr (\<not> truthy v))) \<and>
   (new_Grid w h None st = Inr (g, st') \<longrightarrow> isInside st' g x y \<longrightarrow>
      isWalkableAt st' g x y border = Inr True) \<and>
   (new_Grid w h (Some m) st = Inr (g, st') \<longrightarrow> isInside st' g c r \<longrightarrow>
      (\<forall>x y. isInside st' g x y \<longrightarrow>
         matrix_at m y x = Inr (Number (if x = c \<and> y = r then 1 else 0))) \<longrightarrow>
      isWalkableAt st' g c r border = Inr False \<and>
      (\<forall>x y. isInside st' g x y \<and> (x, y) \<noteq> (c, r) \<longrightarrow> isWalkableAt st' g x y border = Inr True))"
proof (intro conjI impI)
  assume run: "new_Grid w h (Some m) st = Inr (g, st')" and inside: "isInside st' g x y"
  show "\<exists>v. matrix_at m y x = Inr v \<and> isWalkableAt st' g x y border = Inr (\<not> truthy v)"
    using matrix_at_inside [OF run inside] new_Grid_walkable [OF run, of x y border] inside
    by (simp add: cell_open_def)
next
  assume run: "new_Grid w h None st = Inr (g, st')" and inside: "isInside st' g x y"
  show "isWalkableAt st' g x y border = Inr True"
    using new_Grid_walkable [OF run, of x y border] inside by (simp add: cell_open_def)
next
  assume run: "new_Grid w h (Some m) st = Inr (g, st')" and inside: "isInside st' g c r"
    and one: "\<forall>x y. isInside st' g x y \<longrightarrow> matrix_at m y x = Inr (Number (if x = c \<and> y = r then 1 else 0))"
  have val: "cell_value m (nat y) (nat x) = Number (if x = c \<and> y = r then 1 else 0)"
    if "isInside st' g x y" for x y
    using matrix_at_inside [OF run that] one that by simp
  show "isWalkableAt st' g c r border = Inr False"
    using new_Grid_walkable [OF run, of c r border] val [OF inside] by (simp add: cell_open_def)
  show "\<forall>x y. isInside st' g x y \<and> (x, y) \<noteq> (c, r) \<longrightarrow> isWalkableAt st' g x y border = Inr True"
  proof (intro allI impI)
    fix x y assume a: "isInside st' g x y \<and> (x, y) \<noteq> (c, r)"
    then show "isWalkableAt st' g x y border = Inr True"
      using new_Grid_walkable [OF run, of x y border] val [of x y] by (auto simp add: cell_open_def)
  qed
qed

text \<open>
  The theorem at the matrix \<open>[[0, 1]]\<close> of a grid of width 2 and height 1, and at the same
  grid built without a matrix.
\<close>

theorem matrix_inversion_witness:
  "new_Grid 2 1 (Some [[Number 0, Number 1]]) (empty_heap :: unit heap) =
     Inr (0, \<lparr>grids = [\<lparr>width = 2, height = 1, nodes = [[0, 1]], iteration = 0\<rparr>],
              objs = [new_Node 0 0 None, new_Node 1 0 (Some (Flag False))]\<rparr>) \<and>
   matrix_at [[Number 0, Number 1]] 0 1 = Inr (Number 1) \<and>
   isWalkableAt \<lparr>grids = [\<lparr>width = 2, height = 1, nodes = [[0, 1]], iteration = 0\<rparr>],
                  objs = [new_Node 0 0 None, new_Node 1 0 (Some (Flag False)) :: unit Node]\<rparr> 0 1 0 None = Inr False \<and>
   isWalkableAt \<lparr>grids = [\<lparr>width = 2, height = 1, nodes = [[0, 1]], iteration = 0\<rparr>],
                  objs = [new_Node 0 0 None, new_Node 1 0 (Some (Flag False)) :: unit Node]\<rparr> 0 0 0 None = Inr True \<and>
   new_Grid 2 1 None (empty_heap :: unit heap) =
     Inr (0, \<lparr>grids = [\<lparr>width = 2, height = 1, nodes = [[0, 1]], iteration = 0\<rparr>],
              objs = [new_Node 0 0 None, new_Node 1 0 None]\<rparr>) \<and>
   isWalkableAt \<lparr>grids = [\<lparr>width = 2, height = 1, nodes = [[0, 1]], iteration = 0\<rparr>],
                  objs = [new_Node 0 0 None, new_Node 1 0 None :: unit Node]\<rparr> 0 1 0 None = Inr True"
proof -
  let ?m = "[[Number 0, Number 1]]"
  let ?H = "\<lparr>grids = [\<lparr>width = 2, height = 1, nodes = [[0, 1]], iteration = 0\<rparr>],
             objs = [new_Node 0 0 None, new_Node 1 0 (Some (Flag False)) :: unit Node]\<rparr>"
  let ?G = "\<lparr>grids = [\<lparr>width = 2, height = 1, nodes = [[0, 1]], iteration = 0\<rparr>],
              objs = [new_Node 0 0 None, new_Node 1 0 None :: unit Node]\<rparr>"
  have run: "new_Grid 2 1 (Some ?m) (empty_heap :: unit heap) = Inr (0, ?H)"
    by code_simp
  have run0: "new_Grid 2 1 None (empty_heap :: unit heap) = Inr (0, ?G)"
    by code_simp
  have in1: "isInside ?H 0 1 0" and in0: "isInside ?H 0 0 0" and in01: "isInside ?G 0 1 0"
    by (simp_all add: isInside_def the_grid_def)
  have cells: "\<forall>x y. isInside ?H 0 x y \<longrightarrow>
                 matrix_at ?m y x = Inr (Number (if x = 1 \<and> y = 0 then 1 else 0))"
  proof (intro allI impI)
    fix x y assume "isInside ?H 0 x y"
    then have "y = 0" "x = 0 \<or> x = 1"
      by (auto simp: isInside_def the_grid_def)
    then show "matrix_at ?m y x = Inr (Number (if x = 1 \<and> y = 0 then 1 else 0))"
      by (auto simp: matrix_at_def index_def)
  qed
  note inv = matrix_inversion [of 2 1 ?m empty_heap 0 ?H 1 0 None 1 0]
  from inv run in1 have v: "\<exists>v. matrix_at ?m 0 1 = Inr v \<and> isWalkableAt ?H 0 1 0 None = Inr (\<not> truthy v)"
    by blast
  have mv: "matrix_at ?m 0 1 = Inr (Number 1)"
    by (simp add: matrix_at_def index_def)
  from inv run in1 cells have "isWalkableAt ?H 0 1 0 None = Inr False"
    and rest: "\<forall>x y. isInside ?H 0 x y \<and> (x, y) \<noteq> (1, 0) \<longrightarrow> isWalkableAt ?H 0 x y None = Inr True"
    by blast+
  moreover from rest in0 have "isWalkableAt ?H 0 0 0 None = Inr True"
    by simp
  moreover from matrix_inversion [of 2 1 ?m empty_heap 0 ?G 1 0 None 1 0] run0 in01
  have "isWalkableAt ?G 0 1 0 None = Inr True"
    by blast
  ultimately show ?thesis using run run0 mv by simp
qed

subsection \<open>C6: bounds and walkability\<close>

text \<open>
  Claim C6. \<open>isInside(x, y)\<close> is true exactly when \<open>0 \<le> x < width\<close> and
  \<open>0 \<le> y < height\<close>. Outside, \<open>isWalkableAt\<close> returns false for every border. Inside a
  well-formed grid it reads the snapshot \<open>getNodeAt(x, y)\<close> returns, which is the snapshot of
  the node at row \<open>y\<close>, column \<open>x\<close> of the node array, has the coordinates \<open>(x, y)\<close> and the
  \<open>walkable\<close> of that node: when \<open>walkable\<close> is a tag it returns whether the tag differs
  from the border, so true when no border is supplied, and when \<open>walkable\<close> is a boolean it
  returns it, whatever the border. So after \<open>setWalkableAt(x, y, v)\<close>, which returns for
  every cell inside and for no other, \<open>isWalkableAt\<close> answers from \<open>v\<close> at \<open>(x, y)\<close> and as
  before at every other cell.
\<close>

theorem bounds_and_walkability:
  "(isInside st this x y \<longleftrightarrow>
      0 \<le> x \<and> x < width (the_grid st this) \<and> 0 \<le> y \<and> y < height (the_grid st this)) \<and>
   (\<not> isInside st this x y \<longrightarrow> isWalkableAt st this x y border = Inr False) \<and>
   (grid_ok st this \<longrightarrow> isInside st this x y \<longrightarrow>
      (\<exists>n. getNodeAt st this x y = Inr n \<and>
           n = Node_get (the_node st (nodes (the_grid st this) ! nat y ! nat x))
                 (iteration (the_grid st this)) \<and>
           node_x n = x \<and> node_y n = y \<and>
           walkable n = walkable (the_node st (nodes (the_grid st this) ! nat y ! nat x)) \<and>
           (\<forall>t. walkable n = Tag t \<longrightarrow>
                isWalkableAt st this x y border = Inr (Some t \<noteq> border) \<and>
                isWalkableAt st this x y None = Inr True) \<and>
           (\<forall>b. walkable n = Flag b \<longrightarrow> isWalkableAt st this x y border = Inr b))) \<and>
   (grid_ok st this \<longrightarrow> isInside st this x y \<longrightarrow>
      (\<exists>st'. setWalkableAt st this x y v = Inr st')) \<and>
   (grid_ok st this \<longrightarrow> setWalkableAt st this x y v = Inr st' \<longrightarrow>
      isInside st this x y \<and>
      (\<forall>x' y' b. isWalkableAt st' this x' y' b =
         (if x' = x \<and> y' = y then Inr (case v of Tag t \<Rightarrow> Some t \<noteq> b | Flag a \<Rightarrow> a)
          else isWalkableAt st this x' y' b)))"
proof (intro conjI impI allI)
  show "isInside st this x y \<longleftrightarrow>
      0 \<le> x \<and> x < width (the_grid st this) \<and> 0 \<le> y \<and> y < height (the_grid st this)"
    by (auto simp: isInside_def)
  show "isWalkableAt st this x y border = Inr False" if "\<not> isInside st this x y"
    using that by (simp add: isWalkableAt_def)
next
  assume ok: "grid_ok st this" and inside: "isInside st this x y"
  let ?n = "snapshot st this x y"
  have w: "isWalkableAt st this x y b = Inr (case walkable ?n of
          Tag t \<Rightarrow> Some t \<noteq> b | Flag v \<Rightarrow> v)" for b
    using inside by (simp add: isWalkableAt_eq [OF ok] open_at_def snapshot_def Node_get_def)
  have 1: "getNodeAt st this x y = Inr ?n" by (rule getNodeAt_inside [OF ok inside])
  have 2: "?n = Node_get (the_node st (nodes (the_grid st this) ! nat y ! nat x))
                 (iteration (the_grid st this))"
    by (simp add: snapshot_def cell_addr_def)
  have 3: "node_x ?n = x" "node_y ?n = y"
    using grid_ok_cell(2,3) [OF ok inside] by (simp_all add: snapshot_def Node_get_def)
  have 4: "walkable ?n = walkable (the_node st (nodes (the_grid st this) ! nat y ! nat x))"
    by (simp add: snapshot_def cell_addr_def Node_get_def)
  have 5: "\<forall>t. walkable ?n = Tag t \<longrightarrow>
                isWalkableAt st this x y border = Inr (Some t \<noteq> border) \<and>
                isWalkableAt st this x y None = Inr True"
    by (simp add: w)
  have 6: "\<forall>b. walkable ?n = Flag b \<longrightarrow> isWalkableAt st this x y border = Inr b"
    by (simp add: w)
  from 1 2 3 4 5 6
  show "\<exists>n. getNodeAt st this x y = Inr n \<and>
           n = Node_get (the_node st (nodes (the_grid st this) ! nat y ! nat x))
                 (iteration (the_grid st this)) \<and>
           node_x n = x \<and> node_y n = y \<and>
           walkable n = walkable (the_node st (nodes (the_grid st this) ! nat y ! nat x)) \<and>
           (\<forall>t. walkable n = Tag t \<longrightarrow>
                isWalkableAt st this x y border = Inr (Some t \<noteq> border) \<and>
                isWalkableAt st this x y None = Inr True) \<and>
           (\<forall>b. walkable n = Flag b \<longrightarrow> isWalkableAt st this x y border = Inr b)"
    by (intro exI [of _ ?n] conjI)
  show "\<exists>st'. setWalkableAt st this x y v = Inr st'"
    using setWalkableAt_inside [OF ok inside] by blast
next
  assume ok: "grid_ok st this" and set: "setWalkableAt st this x y v = Inr st'"
  show "isInside st this x y" by (rule setWalkableAt_Inr(1) [OF ok set])
  show "isWalkableAt st' this x' y' b =
         (if x' = x \<and> y' = y then Inr (case v of Tag t \<Rightarrow> Some t \<noteq> b | Flag a \<Rightarrow> a)
          else isWalkableAt st this x' y' b)" for x' y' b
    by (rule setWalkableAt_read [OF ok set])
qed

text \<open>
  The theorem on the grid of width 2 and height 2 whose node \<open>(0, 0)\<close> has the tag
  \<open>right\<close>: at \<open>(0, 0)\<close> and at \<open>(1, 1)\<close>, which are inside and differ in \<open>walkable\<close>, at
  \<open>(2, 0)\<close>, which is not inside, and after \<open>setWalkableAt(1, 1, false)\<close>.
\<close>

theorem bounds_and_walkability_witness:
  "grid_ok grid2 0 \<and> isInside grid2 0 0 0 \<and> isInside grid2 0 1 1 \<and> \<not> isInside grid2 0 2 0 \<and>
   getNodeAt grid2 0 0 0 = Inr (new_Node 0 0 (Some (Tag ''right''))) \<and>
   getNodeAt grid2 0 1 1 = Inr (new_Node 1 1 None) \<and>
   isWalkableAt grid2 0 0 0 (Some ''right'') = Inr False \<and>
   isWalkableAt grid2 0 0 0 None = Inr True \<and>
   isWalkableAt grid2 0 1 1 (Some ''right'') = Inr True \<and>
   isWalkableAt grid2 0 2 0 (Some ''right'') = Inr False \<and>
   setWalkableAt grid2 0 1 1 (Flag False) = Inr grid2_blocked \<and>
   isWalkableAt grid2_blocked 0 1 1 (Some ''right'') = Inr False \<and>
   isWalkableAt grid2_blocked 0 0 0 (Some ''right'') = Inr False \<and>
   isWalkableAt grid2_blocked 0 0 0 None = Inr True \<and>
   isWalkableAt grid2_blocked 0 1 0 None = Inr True"
proof -
  have ok: "grid_ok grid2 0" by code_simp
  have in0: "isInside grid2 0 0 0" and in1: "isInside grid2 0 1 1" and out: "\<not> isInside grid2 0 2 0"
    by code_simp+
  have n0: "getNodeAt grid2 0 0 0 = Inr (new_Node 0 0 (Some (Tag ''right'')))"
    and n1: "getNodeAt grid2 0 1 1 = Inr (new_Node 1 1 None)"
    by code_simp+
  have w0: "walkable (new_Node 0 0 (Some (Tag ''right'')) :: unit Node) = Tag ''right''"
    and w1: "walkable (new_Node 1 1 None :: unit Node) = Flag True"
    by (simp_all add: new_Node_def)
  have s: "setWalkableAt grid2 0 1 1 (Flag False) = Inr grid2_blocked" by code_simp
  have r: "isWalkableAt grid2 0 1 0 None = Inr True" by code_simp
  from bounds_and_walkability [of grid2 0 0 0 "Some ''right''"] ok in0 n0 w0
  have a: "isWalkableAt grid2 0 0 0 (Some ''right'') = Inr False"
    and b: "isWalkableAt grid2 0 0 0 None = Inr True"
    by auto
  from bounds_and_walkability [of grid2 0 1 1 "Some ''right''" "Flag False" grid2_blocked]
    ok in1 n1 w1 s
  have c: "isWalkableAt grid2 0 1 1 (Some ''right'') = Inr True"
    and rd: "\<forall>x' y' b. isWalkableAt grid2_blocked 0 x' y' b =
         (if x' = 1 \<and> y' = 1 then Inr (case Flag False of Tag t \<Rightarrow> Some t \<noteq> b | Flag a \<Rightarrow> a)
          else isWalkableAt grid2 0 x' y' b)"
    by auto
  from bounds_and_walkability [of grid2 0 2 0 "Some ''right''"] out
  have d: "isWalkableAt grid2 0 2 0 (Some ''right'') = Inr False"
    by blast
  from rd have e: "isWalkableAt grid2_blocked 0 1 1 (Some ''right'') = Inr False" by simp
  from rd a have f: "isWalkableAt grid2_blocked 0 0 0 (Some ''right'') = Inr False" by simp
  from rd b have g: "isWalkableAt grid2_blocked 0 0 0 None = Inr True" by simp
  from rd r have h: "isWalkableAt grid2_blocked 0 1 0 None = Inr True" by simp
  from ok in0 in1 out n0 n1 a b c d s e f g h show ?thesis by (intro conjI)
qed

subsection \<open>C7: clone\<close>

text \<open>
  Claim C7. \<open>clone\<close> of a well-formed grid returns a new grid, itself well-formed, and
  leaves the source grid and every node of the heap as they were. The clone has the
  width and the height of the source and the iteration 0, whatever the iteration of the
  source. Its node at \<open>(x, y)\<close> is a \<open>new Node(x, y, walkable)\<close> with the \<open>walkable\<close> of
  the source node, and nothing else of it. No reference of the node array of the clone is
  a reference of the node array of the source, so a \<open>setWalkableAt\<close> on the clone changes
  no \<open>isWalkableAt\<close> of the source, and a \<open>setWalkableAt\<close> on the source changes none of
  the clone.
\<close>

theorem clone_independent:
  assumes ok: "grid_ok st this"
  shows "\<exists>g' st'. clone st this = Inr (g', st') \<and> g' \<noteq> this \<and> grid_ok st' g' \<and> grid_ok st' this \<and>
     the_grid st' this = the_grid st this \<and>
     (\<forall>a < length (objs st). the_node st' a = the_node st a) \<and>
     width (the_grid st' g') = width (the_grid st this) \<and>
     height (the_grid st' g') = height (the_grid st this) \<and>
     iteration (the_grid st' g') = 0 \<and>
     (\<forall>x y. isInside st this x y \<longrightarrow>
        (\<exists>n. getNodeAt st this x y = Inr n \<and>
             getNodeAt st' g' x y = Inr (new_Node x y (Some (walkable n))))) \<and>
     (\<forall>x y x' y' a a'. node_ref (nodes (the_grid st' g')) y x = Inr a \<longrightarrow>
        node_ref (nodes (the_grid st' this)) y' x' = Inr a' \<longrightarrow> a \<noteq> a') \<and>
     (\<forall>x y v st'' x' y' b. setWalkableAt st' g' x y v = Inr st'' \<longrightarrow>
        isWalkableAt st'' this x' y' b = isWalkableAt st' this x' y' b) \<and>
     (\<forall>x y v st'' x' y' b. setWalkableAt st' this x y v = Inr st'' \<longrightarrow>
        isWalkableAt st'' g' x' y' b = isWalkableAt st' g' x' y' b)"
proof -
  let ?g = "length (grids st)"
  from clone_facts [OF ok] obtain st' where res: "clone st this = Inr (?g, st')"
    and ok_new: "grid_ok st' ?g" and ok_this: "grid_ok st' this"
    and same: "the_grid st' this = the_grid st this"
    and ext: "extends st st'"
    and w: "width (the_grid st' ?g) = width (the_grid st this)"
    and h: "height (the_grid st' ?g) = height (the_grid st this)"
    and it: "iteration (the_grid st' ?g) = 0"
    and cells: "\<And>x y. isInside st this x y \<Longrightarrow>
           length (objs st) \<le> cell_addr st' ?g x y \<and>
           the_node st' (cell_addr st' ?g x y) =
             new_Node x y (Some (walkable (the_node st (cell_addr st this x y))))"
    by blast
  have neq: "?g \<noteq> this"
    using grid_ok_dims(3) [OF ok] by simp
  have in_new: "isInside st' ?g x y = isInside st this x y" for x y
    by (simp add: isInside_def w h)
  have in_this: "isInside st' this x y = isInside st this x y" for x y
    by (simp add: isInside_def same)
  have addr_this: "cell_addr st' this x y = cell_addr st this x y" for x y
    by (simp add: cell_addr_def same)
  have low: "cell_addr st' this x y < length (objs st)" if "isInside st' this x y" for x y
    using grid_ok_cell(1) [OF ok, of x y] that in_this addr_this by simp
  have high: "length (objs st) \<le> cell_addr st' ?g x y" if "isInside st' ?g x y" for x y
    using cells [of x y] that in_new by simp
  have old: "\<forall>a < length (objs st). the_node st' a = the_node st a"
    using ext by (simp add: extends_def)
  have copy: "\<exists>n. getNodeAt st this x y = Inr n \<and>
             getNodeAt st' ?g x y = Inr (new_Node x y (Some (walkable n)))"
    if "isInside st this x y" for x y
  proof -
    have "getNodeAt st' ?g x y = Inr (new_Node x y (Some (walkable (snapshot st this x y))))"
      using getNodeAt_inside [OF ok_new, of x y] that in_new cells [OF that]
      by (simp add: snapshot_def it)
    with getNodeAt_inside [OF ok that] show ?thesis by simp
  qed
  have apart: "a \<noteq> a'"
    if "node_ref (nodes (the_grid st' ?g)) y x = Inr a"
      and "node_ref (nodes (the_grid st' this)) y' x' = Inr a'" for x y x' y' a a'
    using node_ref_grid_ok [OF ok_new that(1)] node_ref_grid_ok [OF ok_this that(2)]
      high [of x y] low [of x' y'] by simp
  have ind1: "isWalkableAt st'' this x' y' b = isWalkableAt st' this x' y' b"
    if set: "setWalkableAt st' ?g x y v = Inr st''" for x y v st'' x' y' b
  proof (rule setWalkableAt_other_grid [OF ok_new ok_this set])
    fix x' y' assume "isInside st' this x' y'"
    from low [OF this] high [OF setWalkableAt_Inr(1) [OF ok_new set]]
    show "cell_addr st' this x' y' \<noteq> cell_addr st' ?g x y" by simp
  qed
  have ind2: "isWalkableAt st'' ?g x' y' b = isWalkableAt st' ?g x' y' b"
    if set: "setWalkableAt st' this x y v = Inr st''" for x y v st'' x' y' b
  proof (rule setWalkableAt_other_grid [OF ok_this ok_new set])
    fix x' y' assume "isInside st' ?g x' y'"
    from high [OF this] low [OF setWalkableAt_Inr(1) [OF ok_this set]]
    show "cell_addr st' ?g x' y' \<noteq> cell_addr st' this x y" by simp
  qed
  have copy': "\<forall>x y. isInside st this x y \<longrightarrow>
        (\<exists>n. getNodeAt st this x y = Inr n \<and>
             getNodeAt st' ?g x y = Inr (new_Node x y (Some (walkable n))))"
    using copy by blast
  have apart': "\<forall>x y x' y' a a'. node_ref (nodes (the_grid st' ?g)) y x = Inr a \<longrightarrow>
        node_ref (nodes (the_grid st' this)) y' x' = Inr a' \<longrightarrow> a \<noteq> a'"
    using apart by blast
  have ind1': "\<forall>x y v st'' x' y' b. setWalkableAt st' ?g x y v = Inr st'' \<longrightarrow>
        isWalkableAt st'' this x' y' b = isWalkableAt st' this x' y' b"
    using ind1 by blast
  have ind2': "\<forall>x y v st'' x' y' b. setWalkableAt st' this x y v = Inr st'' \<longrightarrow>
        isWalkableAt st'' ?g x' y' b = isWalkableAt st' ?g x' y' b"
    using ind2 by blast
  from res neq ok_new ok_this same old w h it copy' apart' ind1' ind2' show ?thesis
    by (intro exI [of _ ?g] exI [of _ st'] conjI)
qed

text \<open>
  The theorem on the grid of width 2 and height 2 whose node \<open>(0, 0)\<close> has the tag
  \<open>right\<close>, after one \<open>increment\<close>: the clone is at the address 1, its iteration is 0 and
  its node \<open>(0, 0)\<close> has the tag; after \<open>setWalkableAt(1, 1, false)\<close> on the clone,
  \<open>(1, 1)\<close> is not walkable in the clone and is walkable in the source.
\<close>

theorem clone_independent_witness:
  "grid_ok (increment grid2 0) 0 \<and> iteration (the_grid (increment grid2 0) 0) = 1 \<and>
   clone (increment grid2 0) 0 = Inr (1, grid2_cloned) \<and>
   iteration (the_grid grid2_cloned 1) = 0 \<and>
   getNodeAt grid2_cloned 1 0 0 = Inr (new_Node 0 0 (Some (Tag ''right''))) \<and>
   setWalkableAt grid2_cloned 1 1 1 (Flag False) = Inr grid2_clone_set \<and>
   isWalkableAt grid2_clone_set 1 1 1 None = Inr False \<and>
   isWalkableAt grid2_clone_set 0 1 1 None = Inr True"
proof -
  have ok: "grid_ok (increment grid2 0) 0" by code_simp
  have i1: "iteration (the_grid (increment grid2 0) 0) = 1" by code_simp
  have c: "clone (increment grid2 0) 0 = Inr (1, grid2_cloned)" by code_simp
  have n: "getNodeAt grid2_cloned 1 0 0 = Inr (new_Node 0 0 (Some (Tag ''right'')))" by code_simp
  have s: "setWalkableAt grid2_cloned 1 1 1 (Flag False) = Inr grid2_clone_set" by code_simp
  have w1: "isWalkableAt grid2_clone_set 1 1 1 None = Inr False" by code_simp
  have w0: "isWalkableAt grid2_cloned 0 1 1 None = Inr True" by code_simp
  from clone_independent [OF ok] obtain g' st' where
    c': "clone (increment grid2 0) 0 = Inr (g', st')"
    and it: "iteration (the_grid st' g') = 0"
    and ind: "\<forall>x y v st'' x' y' b. setWalkableAt st' g' x y v = Inr st'' \<longrightarrow>
        isWalkableAt st'' 0 x' y' b = isWalkableAt st' 0 x' y' b"
    by (elim exE conjE) (rule that, assumption+)
  from c c' have e: "g' = 1" "st' = grid2_cloned" by simp_all
  with it have i0: "iteration (the_grid grid2_cloned 1) = 0" by simp
  from e ind s have "isWalkableAt grid2_clone_set 0 1 1 None = isWalkableAt grid2_cloned 0 1 1 None"
    by blast
  with w0 have "isWalkableAt grid2_clone_set 0 1 1 None = Inr True" by simp
  with ok i1 c i0 n s w1 show ?thesis by simp
qed

subsection \<open>C8: the iteration counter\<close>

text \<open>
  Claim C8 as stated fails: \<open>iteration\<close> is a number, and \<open>increment\<close> does not add 1 to
  \<open>2^53\<close>. On the grid of width 2 and height 2 whose \<open>iteration\<close> is 0, \<open>2^53\<close> calls of
  \<open>increment\<close> lead to the \<open>iteration\<close> 9007199254740992, and one more call changes
  nothing.
\<close>

theorem increment_saturates:
  "grid_ok grid2 0 \<and>
   (0::nat) < length (grids grid2) \<and>
   iteration (the_grid grid2 0) = 0 \<and>
   increments (2 ^ 53) grid2 0 = grid2_late \<and>
   grid_ok grid2_late 0 \<and>
   iteration (the_grid grid2_late 0) = 9007199254740992 \<and>
   iteration (the_grid (increment grid2_late 0) 0) = 9007199254740992 \<and>
   iteration (the_grid (increment grid2_late 0) 0) \<noteq> iteration (the_grid grid2_late 0) + 1 \<and>
   increment grid2_late 0 = grid2_late"
proof -
  have ok: "grid_ok grid2 0" by code_simp
  have lt: "(0::nat) < length (grids grid2)" by code_simp
  have i0: "iteration (the_grid grid2 0) = 0" by code_simp
  have r: "increments (2 ^ 53) grid2 0 = grid2_late"
    using increments_below [OF lt i0, of "2 ^ 53"] by (simp add: grid2_late_def)
  have ok': "grid_ok grid2_late 0" by code_simp
  have a: "iteration (the_grid grid2_late 0) = 9007199254740992" by code_simp
  have b: "iteration (the_grid (increment grid2_late 0) 0) = 9007199254740992" by code_simp
  have c: "increment grid2_late 0 = grid2_late" by code_simp
  from a b have d: "iteration (the_grid (increment grid2_late 0) 0) \<noteq> iteration (the_grid grid2_late 0) + 1"
    by simp
  from ok lt i0 r ok' a b d c show ?thesis by (intro conjI)
qed

text \<open>
  Claim C8, as amended. The constructor sets \<open>iteration\<close> to 0. \<open>increment\<close> replaces the
  \<open>iteration\<close> of its grid by the double nearest to its successor, which is not smaller and
  is the successor when \<open>iteration\<close> is below \<open>2^53\<close>, and changes nothing else: not the
  width, the height or the node array of the grid, no other grid and no node. Any call of
  \<open>isInside\<close>, \<open>isWalkableAt\<close>, \<open>getNodeAt\<close>, \<open>setWalkableAt\<close>, \<open>getNeighbors\<close>, \<open>clone\<close> or
  \<open>increment\<close> on a well-formed grid that returns lowers the \<open>iteration\<close> of no grid of the
  heap, and every call but \<open>increment\<close> on the grid itself leaves a grid of the heap as it
  was.
\<close>

theorem iteration_counter:
  "(new_Grid w h matrix st0 = Inr (g0, st1) \<longrightarrow> iteration (the_grid st1 g0) = 0) \<and>
   (this < length (grids st) \<longrightarrow>
      iteration (the_grid (increment st this) this) = js_increment (iteration (the_grid st this)) \<and>
      iteration (the_grid st this) \<le> iteration (the_grid (increment st this) this) \<and>
      (iteration (the_grid st this) < 2 ^ 53 \<longrightarrow>
         iteration (the_grid (increment st this) this) = iteration (the_grid st this) + 1) \<and>
      width (the_grid (increment st this) this) = width (the_grid st this) \<and>
      height (the_grid (increment st this) this) = height (the_grid st this) \<and>
      nodes (the_grid (increment st this) this) = nodes (the_grid st this) \<and>
      objs (increment st this) = objs st \<and>
      (\<forall>g1. g1 \<noteq> this \<longrightarrow> the_grid (increment st this) g1 = the_grid st g1)) \<and>
   (grid_ok st g \<longrightarrow> this < length (grids st) \<longrightarrow> call c g st = Inr (r, st') \<longrightarrow>
      iteration (the_grid st this) \<le> iteration (the_grid st' this) \<and>
      (c \<noteq> Increment \<or> g \<noteq> this \<longrightarrow> the_grid st' this = the_grid st this))"
proof (intro conjI impI allI)
  assume "new_Grid w h matrix st0 = Inr (g0, st1)"
  then show "iteration (the_grid st1 g0) = 0" by (rule new_Grid_fields(3))
next
  assume lt: "this < length (grids st)"
  then have eq: "the_grid (increment st this) this =
      (the_grid st this)\<lparr>iteration := js_increment (iteration (the_grid st this))\<rparr>"
    by (simp add: the_grid_increment)
  then show "iteration (the_grid (increment st this) this) = js_increment (iteration (the_grid st this))"
    and "width (the_grid (increment st this) this) = width (the_grid st this)"
    and "height (the_grid (increment st this) this) = height (the_grid st this)"
    and "nodes (the_grid (increment st this) this) = nodes (the_grid st this)"
    by simp_all
  show "iteration (the_grid st this) \<le> iteration (the_grid (increment st this) this)"
    by (simp add: eq js_increment_mono)
  show "iteration (the_grid (increment st this) this) = iteration (the_grid st this) + 1"
    if "iteration (the_grid st this) < 2 ^ 53"
    using that by (simp add: eq js_increment_below)
  show "objs (increment st this) = objs st"
    by (simp add: increment_def)
  show "the_grid (increment st this) g1 = the_grid st g1" if "g1 \<noteq> this" for g1
    using that by (simp add: the_grid_increment)
next
  assume ok: "grid_ok st g" and lt: "this < length (grids st)" and run: "call c g st = Inr (r, st')"
  note frame = call_frame [OF ok lt run]
  show "iteration (the_grid st this) \<le> iteration (the_grid st' this)"
    by (simp add: frame js_increment_mono)
  show "the_grid st' this = the_grid st this" if "c \<noteq> Increment \<or> g \<noteq> this"
    using that by (auto simp: frame)
qed

text \<open>
  The theorem on the grid of width 2 and height 2: as the constructor returns it, after
  \<open>increment\<close>, after each of the four queries, after \<open>setWalkableAt(1, 1, false)\<close>, after
  \<open>increment\<close> and \<open>clone\<close>, where the source keeps the iteration 1, and after \<open>increment\<close>
  at the iteration \<open>2^53\<close>.
\<close>

theorem iteration_counter_witness:
  "new_Grid 2 2 None (empty_heap :: unit heap) = Inr (0, snd (projr (new_Grid 2 2 None empty_heap))) \<and>
   iteration (the_grid (snd (projr (new_Grid 2 2 None (empty_heap :: unit heap)))) 0) = 0 \<and>
   grid_ok grid2 0 \<and>
   iteration (the_grid grid2 0) = 0 \<and>
   iteration (the_grid (increment grid2 0) 0) = 1 \<and>
   call (IsInside 2 0) 0 grid2 = Inr (A_bool False, grid2) \<and>
   call (IsWalkableAt 0 0 None) 0 grid2 = Inr (A_bool True, grid2) \<and>
   call (GetNodeAt 1 1) 0 grid2 = Inr (A_node (new_Node 1 1 None), grid2) \<and>
   call (GetNeighbors (new_Node 1 1 None) False False) 0 grid2 =
     Inr (A_nodes [new_Node 1 0 None, new_Node 0 1 None], grid2) \<and>
   call (SetWalkableAt 1 1 (Flag False)) 0 grid2 = Inr (Nothing, grid2_blocked) \<and>
   the_grid grid2_blocked 0 = the_grid grid2 0 \<and>
   grid_ok (increment grid2 0) 0 \<and>
   call Clone 0 (increment grid2 0) = Inr (A_grid 1, grid2_cloned) \<and>
   the_grid grid2_cloned 0 = the_grid (increment grid2 0) 0 \<and>
   iteration (the_grid grid2_cloned 0) = 1 \<and>
   call Increment 0 grid2_late = Inr (Nothing, increment grid2_late 0) \<and>
   iteration (the_grid grid2_late 0) \<le> iteration (the_grid (increment grid2_late 0) 0)"
proof -
  let ?X = "snd (projr (new_Grid 2 2 None (empty_heap :: unit heap)))"
  have r: "new_Grid 2 2 None (empty_heap :: unit heap) = Inr (0, ?X)" by code_simp
  have ok: "grid_ok grid2 0" by code_simp
  have ok1: "grid_ok (increment grid2 0) 0" by code_simp
  have ok2: "grid_ok grid2_late 0" by code_simp
  have lt: "0 < length (grids grid2)" by code_simp
  have lt1: "0 < length (grids (increment grid2 0))" by code_simp
  have lt2: "0 < length (grids grid2_late)" by code_simp
  have i0: "iteration (the_grid grid2 0) = 0" by code_simp
  have q1: "call (IsInside 2 0) 0 grid2 = Inr (A_bool False, grid2)" by code_simp
  have q2: "call (IsWalkableAt 0 0 None) 0 grid2 = Inr (A_bool True, grid2)" by code_simp
  have q3: "call (GetNodeAt 1 1) 0 grid2 = Inr (A_node (new_Node 1 1 None), grid2)" by code_simp
  have q4: "call (GetNeighbors (new_Node 1 1 None) False False) 0 grid2 =
     Inr (A_nodes [new_Node 1 0 None, new_Node 0 1 None], grid2)" by code_simp
  have s: "call (SetWalkableAt 1 1 (Flag False)) 0 grid2 = Inr (Nothing, grid2_blocked)"
    by code_simp
  have c: "call Clone 0 (increment grid2 0) = Inr (A_grid 1, grid2_cloned)" by code_simp
  have i: "call Increment 0 grid2_late = Inr (Nothing, increment grid2_late 0)" by simp
  note start = iteration_counter [THEN conjunct1, rule_format]
  note step = iteration_counter [THEN conjunct2, THEN conjunct1, rule_format]
  note frame = iteration_counter [THEN conjunct2, THEN conjunct2, rule_format]
  from start [OF r] have a: "iteration (the_grid ?X 0) = 0" .
  from step [OF lt] i0 have b: "iteration (the_grid (increment grid2 0) 0) = 1" by simp
  from frame [OF ok lt s] have d: "the_grid grid2_blocked 0 = the_grid grid2 0" by simp
  from frame [OF ok1 lt1 c] have e: "the_grid grid2_cloned 0 = the_grid (increment grid2 0) 0"
    by simp
  with b have f: "iteration (the_grid grid2_cloned 0) = 1" by simp
  from frame [OF ok2 lt2 i]
  have k: "iteration (the_grid grid2_late 0) \<le> iteration (the_grid (increment grid2_late 0) 0)"
    by (rule conjunct1)
  from r a ok i0 b q1 q2 q3 q4 s d ok1 c e f i k show ?thesis by (intro conjI)
qed

subsection \<open>C9: no index outside the node array\<close>

text \<open>
  Claim C9. On a well-formed grid \<open>isWalkableAt\<close> returns a boolean at every pair of
  integers, and \<open>getNeighbors\<close> returns a list for every node, whatever its coordinates:
  neither raises the TypeError of an index outside the node array. Every node
  \<open>getNeighbors\<close> returns is inside the grid, so the directions that leave the grid are
  absent from the result.
\<close>

theorem queries_stay_in_bounds:
  assumes "grid_ok st this"
  shows "(\<exists>v. isWalkableAt st this x y border = Inr v) \<and>
         (\<exists>ns. getNeighbors st this node ad dcc = Inr ns \<and>
               (\<forall>n \<in> set ns. isInside st this (node_x n) (node_y n)))"
  using isWalkableAt_eq [OF assms, of x y border] getNeighbors_pos [OF assms, of node ad dcc]
  by blast

text \<open>
  The theorem on the grid of width 2 and height 2, at the corner \<open>(0, 0)\<close>: the neighbors
  are the node below and the node on the diagonal below, and \<open>isWalkableAt\<close> at
  \<open>(0, -1)\<close> is false.
\<close>

theorem queries_stay_in_bounds_witness:
  "grid_ok grid2 0 \<and>
   isWalkableAt grid2 0 0 (- 1) (Some ''bottom'') = Inr False \<and>
   (\<exists>ns. getNeighbors grid2 0 (new_Node 0 0 (Some (Tag ''right''))) True False = Inr ns \<and>
         map pos ns = [(0, 1), (1, 1)] \<and>
         list_all (\<lambda>n. isInside grid2 0 (node_x n) (node_y n)) ns)"
proof -
  have ok: "grid_ok grid2 0" by code_simp
  from queries_stay_in_bounds [OF ok, of 0 "- 1" "Some ''bottom''"
      "new_Node 0 0 (Some (Tag ''right''))" True False]
  obtain v ns where v: "isWalkableAt grid2 0 0 (- 1) (Some ''bottom'') = Inr v"
    and ns: "getNeighbors grid2 0 (new_Node 0 0 (Some (Tag ''right''))) True False = Inr ns"
    and inside: "\<forall>n \<in> set ns. isInside grid2 0 (node_x n) (node_y n)"
    by blast
  have "isWalkableAt grid2 0 0 (- 1) (Some ''bottom'') = Inr False"
    by code_simp
  moreover have "map pos (projr (getNeighbors grid2 0 (new_Node 0 0 (Some (Tag ''right''))) True False)) =
      [(0, 1), (1, 1)]"
    by code_simp
  ultimately show ?thesis
    using ok ns inside by (auto simp: list_all_iff)
qed

subsection \<open>C10: no orthogonal neighbor, no neighbor\<close>

text \<open>
  Claim C10. On a well-formed grid and with diagonals asked for, when none of the four
  orthogonal neighbors is returned the result is empty, with or without
  \<open>dontCrossCorners\<close>. Said with the call without diagonals, which returns the
  orthogonal neighbors only: when it returns the empty list, so does the call with
  diagonals.
\<close>

theorem no_orthogonal_no_diagonal:
  assumes "grid_ok st this" and "node_x node = x" and "node_y node = y"
  shows "(\<exists>ns. getNeighbors st this node True dcc = Inr ns \<and>
            ((x, y - 1) \<notin> set (map pos ns) \<and> (x + 1, y) \<notin> set (map pos ns) \<and>
             (x, y + 1) \<notin> set (map pos ns) \<and> (x - 1, y) \<notin> set (map pos ns) \<longrightarrow> ns = [])) \<and>
         (getNeighbors st this node False dcc' = Inr [] \<longrightarrow> getNeighbors st this node True dcc = Inr [])"
proof -
  from getNeighbors_pos [OF assms(1), of node True dcc] assms(2,3) obtain ns where
    ns: "getNeighbors st this node True dcc = Inr ns"
    and coords: "map pos ns = neighbor_coords st this x y True dcc"
    by auto
  from getNeighbors_pos [OF assms(1), of node False dcc'] assms(2,3) obtain ms where
    ms: "getNeighbors st this node False dcc' = Inr ms"
    and mcoords: "map pos ms = neighbor_coords st this x y False dcc'"
    by auto
  have empty: "neighbor_coords st this x y True dcc = []"
    if "\<not> (open_at st this x (y - 1) (Some ''bottom'') \<and> open_at st this x y (Some ''top''))"
      "\<not> (open_at st this (x + 1) y (Some ''left'') \<and> open_at st this x y (Some ''right''))"
      "\<not> (open_at st this x (y + 1) (Some ''top'') \<and> open_at st this x y (Some ''bottom''))"
      "\<not> (open_at st this (x - 1) y (Some ''right'') \<and> open_at st this x y (Some ''left''))"
    unfolding neighbor_coords_unfold diagonal_coords_def Let_def
    using that by (rule picks_empty)
  have 1: "ns = []"
    if "(x, y - 1) \<notin> set (map pos ns) \<and> (x + 1, y) \<notin> set (map pos ns) \<and>
        (x, y + 1) \<notin> set (map pos ns) \<and> (x - 1, y) \<notin> set (map pos ns)"
  proof -
    from that have
      "\<not> (open_at st this x (y - 1) (Some ''bottom'') \<and> open_at st this x y (Some ''top''))"
      "\<not> (open_at st this (x + 1) y (Some ''left'') \<and> open_at st this x y (Some ''right''))"
      "\<not> (open_at st this x (y + 1) (Some ''top'') \<and> open_at st this x y (Some ''bottom''))"
      "\<not> (open_at st this (x - 1) y (Some ''right'') \<and> open_at st this x y (Some ''left''))"
      unfolding coords neighbor_coords_orth by simp_all
    then have "map pos ns = []"
      unfolding coords by (rule empty)
    then show ?thesis by simp
  qed
  have 2: "getNeighbors st this node True dcc = Inr []"
    if "getNeighbors st this node False dcc' = Inr []"
  proof -
    from that ms mcoords have e: "neighbor_coords st this x y False dcc' = []" by simp
    have
      "\<not> (open_at st this x (y - 1) (Some ''bottom'') \<and> open_at st this x y (Some ''top''))"
      "\<not> (open_at st this (x + 1) y (Some ''left'') \<and> open_at st this x y (Some ''right''))"
      "\<not> (open_at st this x (y + 1) (Some ''top'') \<and> open_at st this x y (Some ''bottom''))"
      "\<not> (open_at st this (x - 1) y (Some ''right'') \<and> open_at st this x y (Some ''left''))"
      using neighbor_coords_orth [of x y st this False dcc'] unfolding e by simp_all
    then have "neighbor_coords st this x y True dcc = []"
      by (rule empty)
    with coords ns show ?thesis by simp
  qed
  from ns 1 2 show ?thesis by blast
qed

text \<open>
  The theorem on the grid of width 3 and height 3 whose matrix blocks the four cells
  next to the centre, from the centre: the four diagonal cells are walkable, the call
  without diagonals returns nothing, and so does the call with diagonals.
\<close>

theorem no_orthogonal_no_diagonal_witness:
  "grid_ok grid3 0 \<and>
   isWalkableAt grid3 0 0 0 None = Inr True \<and> isWalkableAt grid3 0 2 0 None = Inr True \<and>
   isWalkableAt grid3 0 2 2 None = Inr True \<and> isWalkableAt grid3 0 0 2 None = Inr True \<and>
   getNeighbors grid3 0 (new_Node 1 1 None) False False = Inr [] \<and>
   getNeighbors grid3 0 (new_Node 1 1 None) True False = Inr []"
proof -
  let ?n = "new_Node 1 1 None :: unit Node"
  have ok: "grid_ok grid3 0" by code_simp
  have xy: "node_x ?n = 1" "node_y ?n = 1" by (simp_all add: new_Node_def)
  have orth: "getNeighbors grid3 0 ?n False False = Inr []" by code_simp
  have diag: "isWalkableAt grid3 0 0 0 None = Inr True" "isWalkableAt grid3 0 2 0 None = Inr True"
    "isWalkableAt grid3 0 2 2 None = Inr True" "isWalkableAt grid3 0 0 2 None = Inr True"
    by code_simp+
  from no_orthogonal_no_diagonal [OF ok xy, of False False] orth
  have "getNeighbors grid3 0 ?n True False = Inr []" by blast
  with ok orth diag show ?thesis by simp
qed

end
